theory Spec2Isabelle
  imports Complex_Main "HOL-Library.Code_Target_Nat"
begin

section \<open>Values of the JavaScript runtime\<close>

text \<open>
  The server keeps all of its data in module-level variables and changes them inside one
  request callback. The model is a record of those variables and one function per route,
  taking the state and returning the reply and the new state.

  A JavaScript string is a sequence of UTF-16 code units, here a list of naturals;
  \<open>js\<close> writes an ASCII literal. A query parameter is \<open>None\<close> when it is absent
  (\<^verbatim>\<open>undefined\<close>); a parameter given several times (an array in Node) is not modelled.
\<close>

type_synonym jsstring = "nat list"

definition js :: "string \<Rightarrow> jsstring" where
  "js s = map of_char s"

text \<open>\<^verbatim>\<open>!x\<close> on an optional string: \<^verbatim>\<open>undefined\<close> and the empty string are falsy.\<close>

fun truthy :: "jsstring option \<Rightarrow> bool" where
  "truthy None = False"
| "truthy (Some s) = (s \<noteq> [])"

text \<open>
  A number is an IEEE double: a finite value (the rational it denotes), negative zero,
  the two infinities, or NaN. \<^verbatim>\<open>parseFloat\<close> can return each of them: NaN for text
  with no numeric prefix, \<open>PosInfinity\<close> for \<^verbatim>\<open>'Infinity'\<close>, \<open>NegZero\<close> for
  \<^verbatim>\<open>'-0'\<close>. An array of deposits holds numbers and, after a trip through JSON,
  \<^verbatim>\<open>null\<close>.
\<close>

datatype jsnum = Finite rat | NegZero | PosInfinity | NegInfinity | NaN

datatype jsval = Num jsnum | Null

fun isNaN :: "jsnum \<Rightarrow> bool" where
  "isNaN NaN = True"
| "isNaN _ = False"

text \<open>
  \<^verbatim>\<open>JSON.parse(JSON.stringify(v))\<close> on a number: JSON has no infinities and no NaN
  (they are written as \<^verbatim>\<open>null\<close>), and negative zero is written as \<^verbatim>\<open>0\<close>.
\<close>

fun json_val :: "jsval \<Rightarrow> jsval" where
  "json_val (Num (Finite r)) = Num (Finite r)"
| "json_val (Num NegZero) = Num (Finite 0)"
| "json_val (Num PosInfinity) = Null"
| "json_val (Num NegInfinity) = Null"
| "json_val (Num NaN) = Null"
| "json_val Null = Null"

text \<open>
  \<^verbatim>\<open>String.prototype.normalize('NFD')\<close> and \<^verbatim>\<open>toLowerCase\<close> are Unicode tables of
  the runtime, and \<^verbatim>\<open>+\<close> on doubles rounds. They are parameters of every route that
  calls them.
\<close>

record builtins =
  normalize_NFD :: "jsstring \<Rightarrow> jsstring"
  toLowerCase :: "jsstring \<Rightarrow> jsstring"
  plus :: "jsval \<Rightarrow> jsval \<Rightarrow> jsval"

text \<open>
  On strings of ASCII code units NFD changes nothing and \<^verbatim>\<open>toLowerCase\<close> maps
  \<^verbatim>\<open>A-Z\<close> to \<^verbatim>\<open>a-z\<close>; the sum of two finite doubles is their exact sum when
  that is a double again, as it is for small integers, and \<^verbatim>\<open>null\<close> counts as 0.
  \<open>ascii\<close> is that instance, used where a concrete input of this kind is evaluated.
\<close>

definition ascii_lower :: "nat \<Rightarrow> nat" where
  "ascii_lower c = (if 65 \<le> c \<and> c \<le> 90 then c + 32 else c)"

fun num_plus :: "jsnum \<Rightarrow> jsnum \<Rightarrow> jsnum" where
  "num_plus NaN b = NaN"
| "num_plus a NaN = NaN"
| "num_plus PosInfinity NegInfinity = NaN"
| "num_plus NegInfinity PosInfinity = NaN"
| "num_plus PosInfinity b = PosInfinity"
| "num_plus a PosInfinity = PosInfinity"
| "num_plus NegInfinity b = NegInfinity"
| "num_plus a NegInfinity = NegInfinity"
| "num_plus NegZero b = b"
| "num_plus a NegZero = a"
| "num_plus (Finite a) (Finite b) = Finite (a + b)"

fun to_number :: "jsval \<Rightarrow> jsnum" where
  "to_number (Num a) = a"
| "to_number Null = Finite 0"

definition exact_plus :: "jsval \<Rightarrow> jsval \<Rightarrow> jsval" where
  "exact_plus a b = Num (num_plus (to_number a) (to_number b))"

definition ascii :: builtins where
  "ascii = \<lparr> normalize_NFD = (\<lambda>s. s), toLowerCase = map ascii_lower, plus = exact_plus \<rparr>"

subsection \<open>Regular expressions of the source\<close>

text \<open>\<^verbatim>\<open>[\u0300-\u036f]\<close>: the combining diacritical marks.\<close>

definition is_combining :: "nat \<Rightarrow> bool" where
  "is_combining c = (768 \<le> c \<and> c \<le> 879)"

text \<open>\<^verbatim>\<open>\s\<close>: white space and line terminators of ECMAScript.\<close>

definition is_space :: "nat \<Rightarrow> bool" where
  "is_space c = (c \<in> set [9, 10, 11, 12, 13, 32, 160, 5760, 8232, 8233, 8239, 8287, 12288, 65279]
                 \<or> (8192 \<le> c \<and> c \<le> 8202))"

text \<open>\<^verbatim>\<open>\w\<close>: \<^verbatim>\<open>[A-Za-z0-9_]\<close>.\<close>

definition is_word :: "nat \<Rightarrow> bool" where
  "is_word c = ((65 \<le> c \<and> c \<le> 90) \<or> (97 \<le> c \<and> c \<le> 122) \<or> (48 \<le> c \<and> c \<le> 57) \<or> c = 95)"

text \<open>\<^verbatim>\<open>.replace(/\s+/g, '_')\<close>: every maximal run of white space becomes one underscore.\<close>

function replace_spaces :: "jsstring \<Rightarrow> jsstring" where
  "replace_spaces [] = []"
| "replace_spaces (c # cs) =
     (if is_space c then 95 # replace_spaces (dropWhile is_space cs)
      else c # replace_spaces cs)"
  by pat_completeness auto
termination
  by (relation "measure length") (auto simp: length_dropWhile_le less_Suc_eq_le)

text \<open>
  \<^verbatim>\<open>
  function sanitizeName(name) {
    return name.normalize('NFD').replace(/[\u0300-\u036f]/g, '')
      .replace(/\s+/g, '_').replace(/[^\w]/g, '').toLowerCase();
  }
  \<close>
\<close>

definition sanitizeName :: "builtins \<Rightarrow> jsstring \<Rightarrow> jsstring" where
  "sanitizeName U name =
     toLowerCase U (filter is_word (replace_spaces
       (filter (\<lambda>c. \<not> is_combining c) (normalize_NFD U name))))"

text \<open>
  The id of a team member (\<^verbatim>\<open>POST /team\<close>):
  \<^verbatim>\<open>name.normalize('NFD').replace(/[\u0300-\u036f]/g, '').replace(/\s+/g, '').toLowerCase()\<close>.
\<close>

definition team_id :: "builtins \<Rightarrow> jsstring \<Rightarrow> jsstring" where
  "team_id U name =
     toLowerCase U (filter (\<lambda>c. \<not> is_space c)
       (filter (\<lambda>c. \<not> is_combining c) (normalize_NFD U name)))"

text \<open>
  The normal form of an account name (\<^verbatim>\<open>handleRegister\<close>, \<^verbatim>\<open>handleLogin\<close>):
  \<^verbatim>\<open>name.normalize('NFD').replace(/\s+/g, '').toLowerCase()\<close>, and
  \<^verbatim>\<open>.replace(/h/g, '')\<close> on top of it.
\<close>

definition normalized :: "builtins \<Rightarrow> jsstring \<Rightarrow> jsstring" where
  "normalized U name = toLowerCase U (filter (\<lambda>c. \<not> is_space c) (normalize_NFD U name))"

definition noH :: "jsstring \<Rightarrow> jsstring" where
  "noH s = filter (\<lambda>c. c \<noteq> 104) s"

section \<open>The data of the server\<close>

text \<open>
  \<^verbatim>\<open>chartData = { labels: [], values: [] }\<close> is the aggregate series (the field
  \<^verbatim>\<open>values\<close> is \<open>vals\<close> here, \<^verbatim>\<open>values\<close> being a keyword). An entry of
  \<^verbatim>\<open>userData\<close> has the same two arrays and \<^verbatim>\<open>entries\<close>, an array of
  \<^verbatim>\<open>{ time, value, totalIndex }\<close>; the routes that rebuild an entry of
  \<^verbatim>\<open>userData\<close> as \<^verbatim>\<open>{ labels, values }\<close> leave \<^verbatim>\<open>entries\<close> undefined,
  which is \<open>None\<close> here.
\<close>

record series =
  labels :: "jsstring list"
  vals :: "jsval list"

record entry =
  e_time :: jsstring
  e_value :: jsval
  totalIndex :: nat

record user_series = series +
  entries :: "entry list option"

record member =
  m_id :: jsstring
  m_name :: jsstring
  description :: jsstring

record credential =
  name :: jsstring
  password :: jsstring
  isMaster :: bool

record snapshot =
  month :: jsstring
  chart :: series
  users :: "(jsstring \<times> user_series) list"
  team :: "member list"

text \<open>The third argument of each \<^verbatim>\<open>addLog\<close> call of the source.\<close>

datatype details =
    NoDetails
  | DepositDetails jsstring jsnum jsstring
  | TeamCreateDetails member
  | TeamUpdateDetails jsstring "jsstring option" "jsstring option"
  | TeamDeleteDetails jsstring jsstring
  | EditEntryDetails jsstring int jsstring jsstring
  | UserDeleteDetails jsstring jsstring
  | UserRenameDetails jsstring jsstring
  | ResetMonthDetails jsstring jsstring
  | RestoreMonthDetails jsstring
  | ChangePasswordDetails jsstring
  | UploadHeroDetails nat

record log_entry =
  timestamp :: jsstring
  admin :: jsstring
  action :: string
  details :: details

text \<open>
  \<^verbatim>\<open>userData\<close> is a plain object. Its own properties are an association list in
  insertion order. A name that is not an own property is looked up in the prototype:
  \<^verbatim>\<open>Object.prototype\<close>, or, once \<^verbatim>\<open>userData['__proto__'] = {labels, values}\<close>
  has run, that object in front of it (\<open>protoReplaced\<close>).
\<close>

record state =
  chartData :: series
  userData :: "(jsstring \<times> user_series) list"
  protoReplaced :: bool
  logs :: "log_entry list"
  monthlyHistory :: "snapshot list"
  currentMonth :: jsstring
  credentials :: "credential list"
  teamData :: "member list"

text \<open>
  What \<^verbatim>\<open>new Date()\<close> gives during one request: \<^verbatim>\<open>toISOString()\<close> and
  \<^verbatim>\<open>toLocaleString('pt-BR', ...)\<close>.
\<close>

record clock =
  isoString :: jsstring
  localeString :: jsstring

datatype reply =
    OK | OKLogin jsstring bool | Created | BadRequest | Unauthorized | Forbidden
  | NotFound | MethodNotAllowed | Conflict | ServerError | StaticFile

text \<open>
  \<open>StaticFile\<close>: the request matched no route and went to the static file server.
  \<open>Crash\<close>: the callback threw; nothing catches it and the process ends.
\<close>

datatype outcome = Crash | Done reply state

subsection \<open>Properties of the object \<^verbatim>\<open>userData\<close>\<close>

definition object_prototype :: "jsstring list" where
  "object_prototype = map js
     [''constructor'', ''__defineGetter__'', ''__defineSetter__'', ''hasOwnProperty'',
      ''__lookupGetter__'', ''__lookupSetter__'', ''isPrototypeOf'', ''propertyIsEnumerable'',
      ''toString'', ''valueOf'', ''__proto__'', ''toLocaleString'']"

datatype property = Absent | Inherited | Own user_series

text \<open>\<^verbatim>\<open>userData[k]\<close>, read.\<close>

definition getProp :: "state \<Rightarrow> jsstring \<Rightarrow> property" where
  "getProp s k =
     (case map_of (userData s) k of
        Some d \<Rightarrow> Own d
      | None \<Rightarrow>
          if k \<in> set object_prototype
             \<or> (protoReplaced s \<and> k \<in> set [js ''labels'', js ''values''])
          then Inherited else Absent)"

fun upsert :: "'k \<Rightarrow> 'v \<Rightarrow> ('k \<times> 'v) list \<Rightarrow> ('k \<times> 'v) list" where
  "upsert k v [] = [(k, v)]"
| "upsert k v ((k', v') # kvs) =
     (if k = k' then (k, v) # kvs else (k', v') # upsert k v kvs)"

text \<open>
  \<^verbatim>\<open>userData[k] = v\<close>: a new key goes last, an old one keeps its place; the name
  \<^verbatim>\<open>__proto__\<close> is the accessor of \<^verbatim>\<open>Object.prototype\<close> and creates no property.
\<close>

definition setProp :: "jsstring \<Rightarrow> user_series \<Rightarrow> state \<Rightarrow> state" where
  "setProp k v s =
     (if k = js ''__proto__'' \<and> map_of (userData s) k = None
      then s\<lparr>protoReplaced := True\<rparr>
      else s\<lparr>userData := upsert k v (userData s)\<rparr>)"

text \<open>\<^verbatim>\<open>delete userData[k]\<close>.\<close>

definition deleteProp :: "jsstring \<Rightarrow> state \<Rightarrow> state" where
  "deleteProp k s = s\<lparr>userData := filter (\<lambda>kv. fst kv \<noteq> k) (userData s)\<rparr>"

text \<open>
  \<^verbatim>\<open>Object.keys\<close>, \<^verbatim>\<open>for ... in\<close> and \<^verbatim>\<open>JSON.stringify\<close> list the own keys that
  are array indices (canonical decimal numerals below \<open>2^32 - 1\<close>) first, in ascending
  order, and then the other keys in insertion order.
\<close>

definition decimal :: "jsstring \<Rightarrow> nat" where
  "decimal s = foldl (\<lambda>a c. 10 * a + (c - 48)) 0 s"

definition array_index :: "jsstring \<Rightarrow> nat option" where
  "array_index s =
     (if s \<noteq> [] \<and> list_all (\<lambda>c. 48 \<le> c \<and> c \<le> 57) s \<and> (hd s \<noteq> 48 \<or> length s = 1)
         \<and> decimal s < 4294967295
      then Some (decimal s) else None)"

definition object_keys :: "(jsstring \<times> 'v) list \<Rightarrow> jsstring list" where
  "object_keys kvs =
     (let ks = map fst kvs
      in sort_key (\<lambda>k. the (array_index k)) (filter (\<lambda>k. array_index k \<noteq> None) ks)
         @ filter (\<lambda>k. array_index k = None) ks)"

text \<open>
  \<^verbatim>\<open>
  function addLog(adminName, action, details) {
    logs.push({ timestamp: new Date().toISOString(), admin: adminName || 'unknown', action, details });
  }
  \<close>
\<close>

definition addLog :: "clock \<Rightarrow> jsstring option \<Rightarrow> string \<Rightarrow> details \<Rightarrow> state \<Rightarrow> state" where
  "addLog clk adminName act det s =
     s\<lparr>logs := logs s @
        [\<lparr>timestamp = isoString clk,
          admin = (if truthy adminName then the adminName else js ''unknown''),
          action = act, details = det\<rparr>]\<rparr>"

section \<open>The routes\<close>

text \<open>
  Every route is a branch of the callback of \<^verbatim>\<open>http.createServer\<close>. Its arguments
  here are the query parameters it reads, the clock, and the state. The broadcast to the
  connected clients and the writing of \<^verbatim>\<open>credentials.json\<close> change none of the
  variables of the state and are left out.
\<close>

subsection \<open>\<^verbatim>\<open>/add/:value\<close>\<close>

text \<open>The label: the locale string with its commas removed.\<close>

definition label_now :: "clock \<Rightarrow> jsstring" where
  "label_now clk = filter (\<lambda>c. c \<noteq> 44) (localeString clk)"

text \<open>
  \<open>amount\<close> is \<^verbatim>\<open>parseFloat\<close> of the last segment of the URL. The series of
  \<open>userName\<close> is created when \<^verbatim>\<open>userData[userName]\<close> is falsy; the three
  \<^verbatim>\<open>push\<close> calls then need \<^verbatim>\<open>labels\<close>, \<^verbatim>\<open>values\<close> and \<^verbatim>\<open>entries\<close> to
  be arrays, and throw a TypeError on \<^verbatim>\<open>undefined\<close>.
\<close>

definition add_value ::
  "clock \<Rightarrow> jsnum \<Rightarrow> jsstring option \<Rightarrow> jsstring option \<Rightarrow> state \<Rightarrow> outcome" where
  "add_value clk amount userName adminName s =
     (if \<not> isNaN amount then
        let label = label_now clk;
            s1 = s\<lparr>chartData :=
                   \<lparr>labels = labels (chartData s) @ [label],
                    vals = vals (chartData s) @ [Num amount]\<rparr>\<rparr>;
            ti = length (vals (chartData s1)) - 1;
            finish = (\<lambda>s'. Done OK (addLog clk adminName ''deposit''
                       (DepositDetails (if truthy userName then the userName else js ''total'')
                          amount label) s'))
        in if truthy userName then
             let u = the userName;
                 s2 = (if getProp s1 u = Absent
                       then setProp u \<lparr>labels = [], vals = [], entries = Some []\<rparr> s1
                       else s1)
             in (case getProp s2 u of
                   Own d \<Rightarrow>
                     (case entries d of
                        Some es \<Rightarrow>
                          finish (s2\<lparr>userData := upsert u
                            \<lparr>labels = labels d @ [label], vals = vals d @ [Num amount],
                             entries = Some (es @ [\<lparr>e_time = label, e_value = Num amount,
                                                    totalIndex = ti\<rparr>])\<rparr> (userData s2)\<rparr>)
                      | None \<Rightarrow> Crash)
                 | Inherited \<Rightarrow> Crash
                 | Absent \<Rightarrow> Crash)
           else finish s1
      else Done BadRequest s)"

subsection \<open>\<^verbatim>\<open>/team\<close>\<close>

text \<open>\<^verbatim>\<open>/^\/team\/[\w-]+$/\<close> and \<^verbatim>\<open>/^\/users\/[\w\-_]+$/\<close>, on the segment after the prefix.\<close>

definition route_id :: "jsstring \<Rightarrow> bool" where
  "route_id i = (i \<noteq> [] \<and> list_all (\<lambda>c. is_word c \<or> c = 45) i)"

fun findIndex :: "('a \<Rightarrow> bool) \<Rightarrow> 'a list \<Rightarrow> nat option" where
  "findIndex P [] = None"
| "findIndex P (x # xs) =
     (if P x then Some 0 else map_option Suc (findIndex P xs))"

definition post_team ::
  "builtins \<Rightarrow> clock \<Rightarrow> jsstring option \<Rightarrow> jsstring option \<Rightarrow> jsstring option \<Rightarrow> state
     \<Rightarrow> reply \<times> state" where
  "post_team U clk nm descr adminName s =
     (if \<not> truthy nm then (BadRequest, s)
      else
        let i = team_id U (the nm)
        in (case find (\<lambda>m. m_id m = i) (teamData s) of
              Some existing \<Rightarrow> (BadRequest, s)
            | None \<Rightarrow>
                let member = \<lparr>m_id = i, m_name = the nm,
                              description = (if truthy descr then the descr else [])\<rparr>
                in (OK, addLog clk adminName ''teamCreate'' (TeamCreateDetails member)
                          (s\<lparr>teamData := teamData s @ [member]\<rparr>))))"

definition put_team ::
  "clock \<Rightarrow> jsstring \<Rightarrow> jsstring option \<Rightarrow> jsstring option \<Rightarrow> jsstring option \<Rightarrow> state
     \<Rightarrow> reply \<times> state" where
  "put_team clk i nm descr adminName s =
     (if \<not> route_id i then (MethodNotAllowed, s)
      else
        (case findIndex (\<lambda>m. m_id m = i) (teamData s) of
           None \<Rightarrow> (NotFound, s)
         | Some idx \<Rightarrow>
             let m = teamData s ! idx;
                 m1 = (if truthy nm then m\<lparr>m_name := the nm\<rparr> else m);
                 m2 = (case descr of Some d \<Rightarrow> m1\<lparr>description := d\<rparr> | None \<Rightarrow> m1)
             in (OK, addLog clk adminName ''teamUpdate'' (TeamUpdateDetails i nm descr)
                       (s\<lparr>teamData := (teamData s)[idx := m2]\<rparr>))))"

definition delete_team :: "clock \<Rightarrow> jsstring \<Rightarrow> jsstring option \<Rightarrow> state \<Rightarrow> reply \<times> state" where
  "delete_team clk i adminName s =
     (if \<not> route_id i then (MethodNotAllowed, s)
      else
        (case findIndex (\<lambda>m. m_id m = i) (teamData s) of
           None \<Rightarrow> (NotFound, s)
         | Some idx \<Rightarrow>
             let removed = teamData s ! idx
             in (OK, addLog clk adminName ''teamDelete''
                       (TeamDeleteDetails (m_id removed) (m_name removed))
                       (s\<lparr>teamData := take idx (teamData s) @ drop (Suc idx) (teamData s)\<rparr>))))"

subsection \<open>\<^verbatim>\<open>GET /participants\<close> and \<^verbatim>\<open>GET /entries\<close>\<close>

record participant =
  p_id :: jsstring
  p_name :: jsstring
  p_count :: nat
  p_total :: jsval

definition get_participants :: "builtins \<Rightarrow> state \<Rightarrow> participant list" where
  "get_participants U s =
     map (\<lambda>nm.
            let vs = vals (the (map_of (userData s) nm))
            in \<lparr>p_id = sanitizeName U nm, p_name = nm, p_count = length vs,
                p_total = foldl (plus U) (Num (Finite 0)) vs\<rparr>)
         (object_keys (userData s))"

definition get_entries ::
  "jsstring option \<Rightarrow> state \<Rightarrow> reply + (nat \<times> jsstring \<times> jsval) list" where
  "get_entries userName s =
     (if \<not> truthy userName then Inl BadRequest
      else
        (case getProp s (the userName) of
           Own d \<Rightarrow>
             (case entries d of
                Some es \<Rightarrow> Inr (map (\<lambda>(idx, e). (idx, e_time e, e_value e)) (enumerate 0 es))
              | None \<Rightarrow> Inl NotFound)
         | Inherited \<Rightarrow> Inl NotFound
         | Absent \<Rightarrow> Inl NotFound))"

subsection \<open>\<^verbatim>\<open>PUT /entry\<close>\<close>

text \<open>The parameter \<^verbatim>\<open>index\<close>: absent, or what \<^verbatim>\<open>parseInt(index, 10)\<close> makes of it.\<close>

datatype index_param = IndexMissing | IndexNaN | Index int

definition put_entry ::
  "clock \<Rightarrow> jsstring option \<Rightarrow> index_param \<Rightarrow> jsstring option \<Rightarrow> jsstring option \<Rightarrow> state
     \<Rightarrow> reply \<times> state" where
  "put_entry clk userName index newTime adminName s =
     (if \<not> truthy userName \<or> index = IndexMissing \<or> \<not> truthy newTime then (BadRequest, s)
      else
        (case index of
           IndexMissing \<Rightarrow> (BadRequest, s)
         | IndexNaN \<Rightarrow> (BadRequest, s)
         | Index idx \<Rightarrow>
             (case getProp s (the userName) of
                Own d \<Rightarrow>
                  (case entries d of
                     Some es \<Rightarrow>
                       if idx < 0 \<or> idx \<ge> int (length es) then (NotFound, s)
                       else
                         let i = nat idx;
                             t = the newTime;
                             ent = es ! i;
                             oldTime = e_time ent;
                             es' = es[i := ent\<lparr>e_time := t\<rparr>];
                             labels' = (if i < length (labels d) \<and> labels d ! i \<noteq> []
                                        then (labels d)[i := t] else labels d);
                             ti = totalIndex ent;
                             cl = labels (chartData s);
                             cl' = (if ti < length cl then cl[ti := t] else cl)
                         in (OK, addLog clk adminName ''editEntryTime''
                                   (EditEntryDetails (the userName) idx oldTime t)
                                   (s\<lparr>userData := upsert (the userName)
                                         (d\<lparr>labels := labels', entries := Some es'\<rparr>) (userData s),
                                      chartData := (chartData s)\<lparr>labels := cl'\<rparr>\<rparr>))
                   | None \<Rightarrow> (NotFound, s))
              | Inherited \<Rightarrow> (NotFound, s)
              | Absent \<Rightarrow> (NotFound, s))))"

subsection \<open>\<^verbatim>\<open>DELETE /users/:id\<close> and \<^verbatim>\<open>PUT /users/:id\<close>\<close>

text \<open>
  \<^verbatim>\<open>Object.keys(userData).find((name) => sanitizeName(name) === id)\<close>; a key that is
  the empty string is falsy and counts as not found.
\<close>

definition find_key :: "builtins \<Rightarrow> jsstring \<Rightarrow> state \<Rightarrow> jsstring option" where
  "find_key U i s = find (\<lambda>nm. sanitizeName U nm = i) (object_keys (userData s))"

definition delete_users ::
  "builtins \<Rightarrow> clock \<Rightarrow> jsstring \<Rightarrow> jsstring option \<Rightarrow> state \<Rightarrow> reply \<times> state" where
  "delete_users U clk i adminName s =
     (if \<not> route_id i then (StaticFile, s)
      else
        (case find_key U i s of
           None \<Rightarrow> (NotFound, s)
         | Some key \<Rightarrow>
             if key = [] then (NotFound, s)
             else (OK, addLog clk adminName ''userDelete'' (UserDeleteDetails i key)
                         (deleteProp key s))))"

definition put_users ::
  "builtins \<Rightarrow> clock \<Rightarrow> jsstring \<Rightarrow> jsstring option \<Rightarrow> jsstring option \<Rightarrow> state
     \<Rightarrow> reply \<times> state" where
  "put_users U clk i adminName newName s =
     (if \<not> route_id i then (StaticFile, s)
      else if \<not> truthy newName then (BadRequest, s)
      else
        (case find_key U i s of
           None \<Rightarrow> (NotFound, s)
         | Some key \<Rightarrow>
             if key = [] then (NotFound, s)
             else
               let d = the (map_of (userData s) key)
               in (OK, addLog clk adminName ''userRename''
                         (UserRenameDetails key (the newName))
                         (setProp (the newName)
                            \<lparr>labels = labels d, vals = vals d, entries = None\<rparr>
                            (deleteProp key s)))))"

subsection \<open>\<^verbatim>\<open>POST /reset-month\<close> and \<^verbatim>\<open>POST /restore-month\<close>\<close>

text \<open>
  \<^verbatim>\<open>JSON.parse(JSON.stringify(userData))\<close>: the own keys in the order of
  \<^verbatim>\<open>Object.keys\<close>, strings as they are, numbers through \<open>json_val\<close>, and no key
  \<^verbatim>\<open>entries\<close> where it was undefined.
\<close>

definition json_entry :: "entry \<Rightarrow> entry" where
  "json_entry e = e\<lparr>e_value := json_val (e_value e)\<rparr>"

definition json_user :: "user_series \<Rightarrow> user_series" where
  "json_user d =
     \<lparr>labels = labels d, vals = map json_val (vals d),
      entries = map_option (map json_entry) (entries d)\<rparr>"

definition json_users :: "(jsstring \<times> user_series) list \<Rightarrow> (jsstring \<times> user_series) list" where
  "json_users kvs = map (\<lambda>k. (k, json_user (the (map_of kvs k)))) (object_keys kvs)"

definition reset_month :: "clock \<Rightarrow> jsstring option \<Rightarrow> state \<Rightarrow> reply \<times> state" where
  "reset_month clk adminName s =
     (let snap = \<lparr>month = currentMonth s,
                  chart = \<lparr>labels = labels (chartData s), vals = vals (chartData s)\<rparr>,
                  users = json_users (userData s),
                  team = teamData s\<rparr>;
          previousMonth = currentMonth s;
          newMonth = take 7 (isoString clk)
      in (OK, addLog clk adminName ''resetMonth'' (ResetMonthDetails previousMonth newMonth)
                (s\<lparr>monthlyHistory := monthlyHistory s @ [snap],
                   chartData := \<lparr>labels = [], vals = []\<rparr>,
                   userData := [],
                   currentMonth := newMonth\<rparr>)))"

text \<open>
  The loop \<^verbatim>\<open>for (const name in snapshot.users)\<close> of the restore: each series is
  rebuilt as \<^verbatim>\<open>{ labels: [...data.labels], values: [...data.values] }\<close>.
\<close>

definition restore_user :: "(jsstring \<times> user_series) list \<Rightarrow> state \<Rightarrow> jsstring \<Rightarrow> state" where
  "restore_user snapUsers s nm =
     (let d = the (map_of snapUsers nm)
      in setProp nm \<lparr>labels = labels d, vals = vals d, entries = None\<rparr> s)"

definition restore_month ::
  "clock \<Rightarrow> jsstring option \<Rightarrow> jsstring option \<Rightarrow> state \<Rightarrow> reply \<times> state" where
  "restore_month clk adminName mon s =
     (if \<not> truthy mon then (BadRequest, s)
      else
        (case find (\<lambda>h. month h = the mon) (monthlyHistory s) of
           None \<Rightarrow> (NotFound, s)
         | Some snap \<Rightarrow>
             let s1 = s\<lparr>chartData := \<lparr>labels = labels (chart snap), vals = vals (chart snap)\<rparr>,
                        userData := []\<rparr>;
                 s2 = foldl (restore_user (users snap)) s1 (object_keys (users snap));
                 s3 = s2\<lparr>teamData := team snap, currentMonth := month snap\<rparr>
             in (OK, addLog clk adminName ''restoreMonth'' (RestoreMonthDetails (the mon)) s3)))"

definition get_history :: "state \<Rightarrow> jsstring list" where
  "get_history s = map month (monthlyHistory s)"

subsection \<open>Accounts\<close>

text \<open>
  \<^verbatim>\<open>loadCredentials\<close>: the array parsed from \<^verbatim>\<open>credentials.json\<close>, or, without such
  a file or array, the default master account.
\<close>

definition loadCredentials :: "credential list option \<Rightarrow> credential list" where
  "loadCredentials file =
     (case file of
        Some parsed \<Rightarrow> parsed
      | None \<Rightarrow> [\<lparr>name = js ''Esther'', password = js ''1705'', isMaster = True\<rparr>])"

definition handleRegister ::
  "builtins \<Rightarrow> clock \<Rightarrow> jsstring option \<Rightarrow> jsstring option \<Rightarrow> state \<Rightarrow> reply \<times> state" where
  "handleRegister U clk nm pw s =
     (if \<not> truthy nm \<or> \<not> truthy pw then (BadRequest, s)
      else
        let n = normalized U (the nm)
        in if list_ex (\<lambda>c. normalized U (name c) = n) (credentials s) then (Conflict, s)
           else (Created, addLog clk nm ''register'' NoDetails
                   (s\<lparr>credentials := credentials s @
                        [\<lparr>name = the nm, password = the pw, isMaster = False\<rparr>]\<rparr>)))"

text \<open>
  The loop of \<^verbatim>\<open>handleLogin\<close>: the first credential whose normal form is that of the
  given name, or is so once every \<^verbatim>\<open>h\<close> is removed from both.
\<close>

fun findCredential :: "builtins \<Rightarrow> jsstring \<Rightarrow> credential list \<Rightarrow> credential option" where
  "findCredential U n [] = None"
| "findCredential U n (c # cs) =
     (let credNorm = normalized U (name c)
      in if n = credNorm \<or> noH n = noH credNorm then Some c
         else findCredential U n cs)"

definition handleLogin ::
  "builtins \<Rightarrow> clock \<Rightarrow> jsstring option \<Rightarrow> jsstring option \<Rightarrow> state \<Rightarrow> reply \<times> state" where
  "handleLogin U clk nm pw s =
     (if \<not> truthy nm \<or> \<not> truthy pw then (BadRequest, s)
      else
        (case findCredential U (normalized U (the nm)) (credentials s) of
           None \<Rightarrow> (Unauthorized, s)
         | Some userCred \<Rightarrow>
             if password userCred \<noteq> the pw then (Unauthorized, s)
             else (OKLogin (name userCred) (isMaster userCred),
                   addLog clk nm ''login'' NoDetails s)))"

definition change_password ::
  "builtins \<Rightarrow> clock \<Rightarrow> jsstring option \<Rightarrow> jsstring option \<Rightarrow> state \<Rightarrow> reply \<times> state" where
  "change_password U clk adminName newPassword s =
     (if \<not> truthy adminName \<or> \<not> truthy newPassword then (BadRequest, s)
      else if normalized U (the adminName) \<noteq> js ''esther'' then (Forbidden, s)
      else
        (case findIndex (\<lambda>c. toLowerCase U (name c) = js ''esther'') (credentials s) of
           None \<Rightarrow> (ServerError, s)
         | Some credIndex \<Rightarrow>
             (OK, addLog clk adminName ''changePassword''
                    (ChangePasswordDetails (the adminName))
                    (s\<lparr>credentials := (credentials s)
                         [credIndex := (credentials s ! credIndex)
                                         \<lparr>password := the newPassword\<rparr>]\<rparr>))))"

subsection \<open>\<^verbatim>\<open>/logs\<close> and \<^verbatim>\<open>/upload-hero\<close>\<close>

definition get_logs :: "state \<Rightarrow> log_entry list" where
  "get_logs s = logs s"

definition delete_logs ::
  "builtins \<Rightarrow> clock \<Rightarrow> jsstring option \<Rightarrow> state \<Rightarrow> reply \<times> state" where
  "delete_logs U clk adminName s =
     (if \<not> truthy adminName \<or> toLowerCase U (the adminName) \<noteq> js ''esther''
      then (Forbidden, s)
      else (OK, addLog clk adminName ''clearLogs'' NoDetails (s\<lparr>logs := []\<rparr>)))"

text \<open>
  The upload: the body does not parse, the file cannot be written, or the image of the
  given size is written and logged.
\<close>

datatype upload = BadBody | WriteFailed | Written nat

definition upload_hero :: "clock \<Rightarrow> jsstring option \<Rightarrow> upload \<Rightarrow> state \<Rightarrow> reply \<times> state" where
  "upload_hero clk adminName up s =
     (case up of
        BadBody \<Rightarrow> (BadRequest, s)
      | WriteFailed \<Rightarrow> (ServerError, s)
      | Written n \<Rightarrow> (OK, addLog clk adminName ''uploadHero'' (UploadHeroDetails n) s))"

section \<open>The server as a transition system\<close>

datatype request =
    Add jsnum "jsstring option" "jsstring option"
  | PostTeam "jsstring option" "jsstring option" "jsstring option"
  | PutTeam jsstring "jsstring option" "jsstring option" "jsstring option"
  | DeleteTeam jsstring "jsstring option"
  | PutEntry "jsstring option" index_param "jsstring option" "jsstring option"
  | DeleteUsers jsstring "jsstring option"
  | PutUsers jsstring "jsstring option" "jsstring option"
  | ResetMonth "jsstring option"
  | RestoreMonth "jsstring option" "jsstring option"
  | Register "jsstring option" "jsstring option"
  | Login "jsstring option" "jsstring option"
  | ChangePassword "jsstring option" "jsstring option"
  | DeleteLogs "jsstring option"
  | UploadHero "jsstring option" upload

definition finished :: "reply \<times> state \<Rightarrow> outcome" where
  "finished rs = Done (fst rs) (snd rs)"

fun step :: "builtins \<Rightarrow> clock \<Rightarrow> request \<Rightarrow> state \<Rightarrow> outcome" where
  "step U clk (Add amount userName adminName) s = add_value clk amount userName adminName s"
| "step U clk (PostTeam nm descr adminName) s = finished (post_team U clk nm descr adminName s)"
| "step U clk (PutTeam i nm descr adminName) s = finished (put_team clk i nm descr adminName s)"
| "step U clk (DeleteTeam i adminName) s = finished (delete_team clk i adminName s)"
| "step U clk (PutEntry userName index newTime adminName) s =
     finished (put_entry clk userName index newTime adminName s)"
| "step U clk (DeleteUsers i adminName) s = finished (delete_users U clk i adminName s)"
| "step U clk (PutUsers i adminName newName) s = finished (put_users U clk i adminName newName s)"
| "step U clk (ResetMonth adminName) s = finished (reset_month clk adminName s)"
| "step U clk (RestoreMonth adminName mon) s = finished (restore_month clk adminName mon s)"
| "step U clk (Register nm pw) s = finished (handleRegister U clk nm pw s)"
| "step U clk (Login nm pw) s = finished (handleLogin U clk nm pw s)"
| "step U clk (ChangePassword adminName newPassword) s =
     finished (change_password U clk adminName newPassword s)"
| "step U clk (DeleteLogs adminName) s = finished (delete_logs U clk adminName s)"
| "step U clk (UploadHero adminName up) s = finished (upload_hero clk adminName up s)"

text \<open>
  The variables at start-up: empty series, log and history, the month of the clock, the
  credentials loaded, and the three members of \<^verbatim>\<open>teamData\<close> (the accented letters
  of the descriptions as code units).
\<close>

definition init_state :: "clock \<Rightarrow> credential list option \<Rightarrow> state" where
  "init_state clk file =
     \<lparr>chartData = \<lparr>labels = [], vals = []\<rparr>,
      userData = [],
      protoReplaced = False,
      logs = [],
      monthlyHistory = [],
      currentMonth = take 7 (isoString clk),
      credentials = loadCredentials file,
      teamData =
        [\<lparr>m_id = js ''esther'', m_name = js ''Esther'',
          description = js ''L'' @ [237] @ js ''der principal respons'' @ [225] @ js ''vel pelas decis'' @ [245] @ js ''es estrat'' @ [233] @ js ''gicas e comunica'' @ [231] @ [227] @ js ''o oficial.''\<rparr>,
         \<lparr>m_id = js ''evelyn'', m_name = js ''Evelyn'',
          description = js ''Gestora financeira, cuida da organiza'' @ [231] @ [227] @ js ''o e do controle de valores.''\<rparr>,
         \<lparr>m_id = js ''lia'', m_name = js ''Lia'',
          description = js ''Assistente anal'' @ [237] @ js ''tica respons'' @ [225] @ js ''vel por an'' @ [225] @ js ''lises, gr'' @ [225] @ js ''ficos e resumos.''\<rparr>]\<rparr>"

text \<open>
  A clock reading has a non-empty ISO string and a locale string that is more than
  commas. The reachable states are those the routes produce from start-up without a crash.
\<close>

definition clock_ok :: "clock \<Rightarrow> bool" where
  "clock_ok clk = (isoString clk \<noteq> [] \<and> label_now clk \<noteq> [])"

inductive reachable :: "builtins \<Rightarrow> state \<Rightarrow> bool" for U :: builtins where
  initial: "clock_ok clk \<Longrightarrow> reachable U (init_state clk file)"
| after: "reachable U s \<Longrightarrow> clock_ok clk \<Longrightarrow> step U clk req s = Done r s' \<Longrightarrow> reachable U s'"

subsection \<open>Runs and observations\<close>

text \<open>A run is a sequence of requests, each with its clock reading; it ends at a crash.\<close>

fun run :: "builtins \<Rightarrow> (clock \<times> request) list \<Rightarrow> state \<Rightarrow> state option" where
  "run U [] s = Some s"
| "run U ((clk, req) # rest) s =
     (case step U clk req s of
        Done r s' \<Rightarrow> run U rest s'
      | Crash \<Rightarrow> None)"

text \<open>A sequence of deposits that all succeed (reply 200).\<close>

fun appendDeposits ::
  "(clock \<times> jsnum \<times> jsstring option \<times> jsstring option) list \<Rightarrow> state \<Rightarrow> state option" where
  "appendDeposits [] s = Some s"
| "appendDeposits ((clk, amount, userName, adminName) # rest) s =
     (case add_value clk amount userName adminName s of
        Done r s' \<Rightarrow> (if r = OK then appendDeposits rest s' else None)
      | Crash \<Rightarrow> None)"

fun replied :: "outcome \<Rightarrow> reply option" where
  "replied Crash = None"
| "replied (Done r s) = Some r"

fun state_after :: "outcome \<Rightarrow> state option" where
  "state_after Crash = None"
| "state_after (Done r s) = Some s"

text \<open>The \<^verbatim>\<open>entries\<close> array of a contributor, if the contributor has one.\<close>

definition user_entries :: "jsstring \<Rightarrow> state \<Rightarrow> entry list option" where
  "user_entries nm s = (case getProp s nm of Own d \<Rightarrow> entries d | Inherited \<Rightarrow> None | Absent \<Rightarrow> None)"

definition user_labels :: "jsstring \<Rightarrow> state \<Rightarrow> jsstring list option" where
  "user_labels nm s = map_option labels (map_of (userData s) nm)"

definition user_vals :: "jsstring \<Rightarrow> state \<Rightarrow> jsval list option" where
  "user_vals nm s = map_option vals (map_of (userData s) nm)"

text \<open>A request is a deposit for a contributor: it names it, and its amount is not rejected.\<close>

fun deposit_for :: "jsstring \<Rightarrow> request \<Rightarrow> bool" where
  "deposit_for c (Add amount userName adminName) = (userName = Some c \<and> \<not> isNaN amount)"
| "deposit_for c _ = False"

subsection \<open>Invariants\<close>

text \<open>The length invariant of the data model: labels and values are aligned in every series.\<close>

definition length_invariant :: "state \<Rightarrow> bool" where
  "length_invariant s =
     (length (labels (chartData s)) = length (vals (chartData s))
      \<and> list_all (\<lambda>kv. length (labels (snd kv)) = length (vals (snd kv))) (userData s))"

text \<open>
  What holds of a contributor in every reachable state: the key is a non-empty own
  property name, labels and values are aligned, no label is empty, and the entries, where
  present, are aligned with the labels and point into the aggregate series of length
  \<open>n\<close>.
\<close>

definition user_ok :: "nat \<Rightarrow> jsstring \<times> user_series \<Rightarrow> bool" where
  "user_ok n kv =
     (fst kv \<noteq> [] \<and> fst kv \<noteq> js ''__proto__''
      \<and> length (labels (snd kv)) = length (vals (snd kv))
      \<and> list_all (\<lambda>l. l \<noteq> []) (labels (snd kv))
      \<and> (case entries (snd kv) of
            None \<Rightarrow> True
          | Some es \<Rightarrow> length es = length (labels (snd kv))
                       \<and> list_all (\<lambda>e. totalIndex e < n) es))"

definition snapshot_ok :: "snapshot \<Rightarrow> bool" where
  "snapshot_ok h =
     (month h \<noteq> []
      \<and> length (labels (chart h)) = length (vals (chart h))
      \<and> distinct (map fst (users h))
      \<and> list_all (\<lambda>kv. user_ok 0 (fst kv, (snd kv)\<lparr>entries := None\<rparr>)) (users h)
      \<and> distinct (map m_id (team h)))"

definition invariant :: "state \<Rightarrow> bool" where
  "invariant s =
     (length (labels (chartData s)) = length (vals (chartData s))
      \<and> distinct (map fst (userData s))
      \<and> list_all (user_ok (length (labels (chartData s)))) (userData s)
      \<and> currentMonth s \<noteq> []
      \<and> distinct (map m_id (teamData s))
      \<and> list_all snapshot_ok (monthlyHistory s))"

text \<open>No contributor has an \<^verbatim>\<open>entries\<close> array.\<close>

definition no_entries :: "(jsstring \<times> user_series) list \<Rightarrow> bool" where
  "no_entries kvs = list_all (\<lambda>kv. entries (snd kv) = None) kvs"

subsection \<open>The wording of the roster, login and audit rules\<close>

text \<open>The roster rule: ids are unique, and each id is the derivation of the member's name.\<close>

definition ids_unique :: "state \<Rightarrow> bool" where
  "ids_unique s = distinct (map m_id (teamData s))"

definition ids_derived :: "builtins \<Rightarrow> state \<Rightarrow> bool" where
  "ids_derived U s = list_all (\<lambda>m. m_id m = team_id U (m_name m)) (teamData s)"

text \<open>
  The login rule: the normal forms of the given name and of the credential's name are
  equal, or are equal once \<^verbatim>\<open>h\<close> is dropped.
\<close>

definition login_match :: "builtins \<Rightarrow> jsstring \<Rightarrow> credential \<Rightarrow> bool" where
  "login_match U nm c =
     (normalized U nm = normalized U (name c)
      \<or> noH (normalized U nm) = noH (normalized U (name c)))"

text \<open>The names of the credentials with \<^verbatim>\<open>isMaster = true\<close>.\<close>

definition master_names :: "state \<Rightarrow> jsstring list" where
  "master_names s = map name (filter isMaster (credentials s))"

subsection \<open>Inputs of the examples\<close>

definition clock1 :: clock where
  "clock1 = \<lparr>isoString = js ''2026-01-05T10:00:00.000Z'',
             localeString = js ''05/01/2026, 10:00:00''\<rparr>"

definition clock2 :: clock where
  "clock2 = \<lparr>isoString = js ''2026-01-06T11:30:00.000Z'',
             localeString = js ''06/01/2026, 11:30:00''\<rparr>"

definition Ana :: jsstring where
  "Ana = js ''Ana''"

definition Bia :: jsstring where
  "Bia = js ''Bia''"

text \<open>Two deposits, for two contributors, after start-up with the default credentials.\<close>

definition two_contributors :: state where
  "two_contributors =
     the (run ascii [(clock1, Add (Finite 50) (Some Ana) None),
                     (clock2, Add (Finite 30) (Some Bia) None)] (init_state clock1 None))"

text \<open>Two contributors whose names have the same sanitized id, \<^verbatim>\<open>ana\<close>.\<close>

definition same_id_contributors :: state where
  "same_id_contributors =
     the (run ascii [(clock1, Add (Finite 50) (Some (js ''Ana'')) None),
                     (clock2, Add (Finite 30) (Some (js ''ana'')) None)] (init_state clock1 None))"

section \<open>Properties\<close>

subsection \<open>Evaluation and the object \<^verbatim>\<open>userData\<close>\<close>

lemmas example_defs =
  init_state_def loadCredentials_def clock1_def clock2_def Ana_def Bia_def js_def

lemmas route_defs =
  add_value_def Let_def label_now_def getProp_def setProp_def deleteProp_def
  object_prototype_def addLog_def

lemmas string_defs =
  normalized_def noH_def ascii_def ascii_lower_def is_space_def is_combining_def is_word_def

lemma map_of_upsert: "map_of (upsert k v kvs) = (map_of kvs)(k \<mapsto> v)"
  by (induction kvs) auto

lemma list_all_upsert: "P (k, v) \<Longrightarrow> list_all P kvs \<Longrightarrow> list_all P (upsert k v kvs)"
  by (induction kvs) auto

lemma getProp_Own_mem: "getProp s k = Own d \<Longrightarrow> (k, d) \<in> set (userData s)"
  by (auto simp: getProp_def split: option.splits if_splits dest: map_of_SomeD)

lemma getProp_chartData [simp]: "getProp (s\<lparr>chartData := c\<rparr>) k = getProp s k"
  by (auto simp: getProp_def split: option.splits)

lemma Absent_not_proto: "getProp s k = Absent \<Longrightarrow> k \<noteq> js ''__proto__''"
  by (auto simp: getProp_def object_prototype_def split: option.splits if_splits)

lemma getProp_setProp_same: "k \<noteq> js ''__proto__'' \<Longrightarrow> getProp (setProp k v s) k = Own v"
  by (simp add: getProp_def setProp_def map_of_upsert)

subsection \<open>Deposits\<close>

lemma add_value_chart:
  "add_value clk amount userName adminName s = Done r s' \<Longrightarrow> amount \<noteq> NaN \<Longrightarrow>
     r = OK \<and> labels (chartData s') = labels (chartData s) @ [label_now clk]
     \<and> vals (chartData s') = vals (chartData s) @ [Num amount]"
  by (cases amount)
     (auto simp: add_value_def Let_def addLog_def setProp_def split: property.splits option.splits if_splits)

lemma add_value_OK_not_NaN: "add_value clk amount userName adminName s = Done OK s' \<Longrightarrow> amount \<noteq> NaN"
  by (auto simp: add_value_def)

lemma add_value_users_lengths:
  assumes "add_value clk amount userName adminName s = Done OK s'"
    and "list_all (\<lambda>kv. length (labels (snd kv)) = length (vals (snd kv))) (userData s)"
  shows "list_all (\<lambda>kv. length (labels (snd kv)) = length (vals (snd kv))) (userData s')"
proof -
  let ?P = "\<lambda>kv::jsstring \<times> user_series. length (labels (snd kv)) = length (vals (snd kv))"
  let ?s1 = "s\<lparr>chartData := \<lparr>labels = labels (chartData s) @ [label_now clk],
                    vals = vals (chartData s) @ [Num amount]\<rparr>\<rparr>"
  let ?u = "the userName"
  let ?s2 = "if getProp ?s1 ?u = Absent
             then setProp ?u \<lparr>labels = [], vals = [], entries = Some []\<rparr> ?s1 else ?s1"
  have n: "\<not> isNaN amount" using assms(1) by (auto simp: add_value_def)
  show ?thesis
  proof (cases "truthy userName")
    case False
    then show ?thesis using assms n by (auto simp: add_value_def Let_def addLog_def)
  next
    case True
    have s2: "list_all ?P (userData ?s2)"
      using assms(2) by (auto simp: setProp_def intro: list_all_upsert)
    from assms(1) n True obtain d es where
      g: "getProp ?s2 ?u = Own d" and e: "entries d = Some es"
      and s': "userData s' = upsert ?u
                 \<lparr>labels = labels d @ [label_now clk], vals = vals d @ [Num amount],
                  entries = Some (es @ [\<lparr>e_time = label_now clk, e_value = Num amount,
                     totalIndex = length (vals (chartData ?s1)) - 1\<rparr>])\<rparr> (userData ?s2)"
      by (auto simp: add_value_def Let_def addLog_def split: property.splits option.splits)
    from getProp_Own_mem[OF g] s2 have "?P (?u, d)"
      by (auto simp: list_all_iff)
    then show ?thesis unfolding s' using s2
      by (intro list_all_upsert) auto
  qed
qed

lemma add_value_length_invariant:
  assumes "add_value clk amount userName adminName s = Done OK s'" and "length_invariant s"
  shows "length_invariant s'
         \<and> length (labels (chartData s')) = Suc (length (labels (chartData s)))
         \<and> length (vals (chartData s')) = Suc (length (vals (chartData s)))"
  using add_value_chart[OF assms(1) add_value_OK_not_NaN[OF assms(1)]]
        add_value_users_lengths[OF assms(1)] assms(2)
  by (simp add: length_invariant_def)

lemma appendDeposits_prefix:
  "length_invariant s \<Longrightarrow> appendDeposits calls s = Some s' \<Longrightarrow> k \<le> length calls \<Longrightarrow>
     \<exists>sk. appendDeposits (take k calls) s = Some sk
          \<and> length (labels (chartData sk)) = length (labels (chartData s)) + k
          \<and> length (vals (chartData sk)) = length (vals (chartData s)) + k
          \<and> length_invariant sk"
proof (induction calls arbitrary: s k)
  case Nil
  then show ?case by simp
next
  case (Cons c calls)
  obtain clk amount userName adminName where c: "c = (clk, amount, userName, adminName)"
    by (cases c) auto
  show ?case
  proof (cases k)
    case 0
    then show ?thesis using Cons.prems by simp
  next
    case (Suc j)
    from Cons.prems(2) c obtain s1 where
      a: "add_value clk amount userName adminName s = Done OK s1"
      and r: "appendDeposits calls s1 = Some s'"
      by (auto split: outcome.splits if_splits)
    note st = add_value_length_invariant[OF a Cons.prems(1)]
    from Cons.prems(3) Suc have "j \<le> length calls" by simp
    from Cons.IH[OF conjunct1[OF st] r this] obtain sk where
      "appendDeposits (take j calls) s1 = Some sk"
      "length (labels (chartData sk)) = length (labels (chartData s1)) + j"
      "length (vals (chartData sk)) = length (vals (chartData s1)) + j"
      "length_invariant sk" by blast
    then show ?thesis using st a c Suc by simp
  qed
qed


lemma add_value_NaN: "add_value clk NaN userName adminName s = Done BadRequest s"
  by (simp add: add_value_def)

lemma add_value_not_BadRequest:
  "amount \<noteq> NaN \<Longrightarrow> replied (add_value clk amount userName adminName s) \<noteq> Some BadRequest"
  by (cases amount)
     (auto simp: add_value_def Let_def split: property.splits option.splits)

lemma add_value_succeeds:
  assumes "amount \<noteq> NaN"
    and "\<not> truthy userName \<or> getProp s (the userName) = Absent
         \<or> (\<exists>d es. getProp s (the userName) = Own d \<and> entries d = Some es)"
  shows "\<exists>s'. add_value clk amount userName adminName s = Done OK s'"
proof -
  have n: "\<not> isNaN amount" using assms(1) by (cases amount) auto
  show ?thesis
  proof (cases "truthy userName")
    case False
    then show ?thesis using n by (simp add: add_value_def Let_def)
  next
    case True
    with assms(2) consider "getProp s (the userName) = Absent"
      | d es where "getProp s (the userName) = Own d" "entries d = Some es" by blast
    then show ?thesis
    proof cases
      case 1
      note g = getProp_setProp_same[OF Absent_not_proto[OF 1]]
      show ?thesis using n True 1
        by (simp add: add_value_def Let_def g)
    next
      case 2
      then show ?thesis using n True
        by (simp add: add_value_def Let_def)
    qed
  qed
qed

text \<open>
  C6. From a state in which labels and values have the same length in the aggregate
  series and in every contributor series, after each call of a sequence of successful
  deposits (after the first \<open>k\<close> calls, for every \<open>k\<close>) the aggregate labels and values
  have each grown by exactly \<open>k\<close>, and the length equality holds again for the
  aggregate and for every contributor.
\<close>

theorem appendDeposits_lengths:
  "length_invariant s \<Longrightarrow> appendDeposits calls s = Some s' \<Longrightarrow> k \<le> length calls \<Longrightarrow>
     \<exists>sk. appendDeposits (take k calls) s = Some sk
          \<and> length (labels (chartData sk)) = length (labels (chartData s)) + k
          \<and> length (vals (chartData sk)) = length (vals (chartData s)) + k
          \<and> length_invariant sk"
  by (rule appendDeposits_prefix)

theorem appendDeposits_lengths_witness:
  "length_invariant (init_state clock1 None)
   \<and> appendDeposits [(clock1, Finite 50, Some Ana, None), (clock2, Finite 30, None, None)]
        (init_state clock1 None) \<noteq> None
   \<and> (\<exists>sk. appendDeposits
              (take 1 [(clock1, Finite 50, Some Ana, None), (clock2, Finite 30, None, None)])
              (init_state clock1 None) = Some sk
          \<and> length (labels (chartData sk)) = length (labels (chartData (init_state clock1 None))) + 1
          \<and> length (vals (chartData sk)) = length (vals (chartData (init_state clock1 None))) + 1
          \<and> length_invariant sk)"
proof -
  have h1: "length_invariant (init_state clock1 None)"
    by (simp add: length_invariant_def init_state_def)
  obtain s' where h2:
    "appendDeposits [(clock1, Finite 50, Some Ana, None), (clock2, Finite 30, None, None)]
       (init_state clock1 None) = Some s'"
    by (simp add: route_defs example_defs)
  have h3: "(1::nat) \<le> length [(clock1, Finite 50, Some Ana, None), (clock2, Finite 30, None, None)]"
    by simp
  show ?thesis
    using h1 h2 appendDeposits_lengths [OF h1 h2 h3] by simp
qed

text \<open>
  C2 as stated fails: \<^verbatim>\<open>/add/Infinity\<close> is not rejected. The guard of the route is
  \<^verbatim>\<open>!isNaN(amount)\<close>, so \<open>PosInfinity\<close> is accepted and appended.
\<close>

theorem add_value_counterexample:
  "replied (add_value clock1 PosInfinity None None (init_state clock1 None)) = Some OK
   \<and> map_option (vals \<circ> chartData)
        (state_after (add_value clock1 PosInfinity None None (init_state clock1 None)))
      = Some [Num PosInfinity]"
  by (simp add: route_defs example_defs)

lemma add_value_unnamed:
  assumes "amount \<noteq> NaN" and "\<not> truthy userName"
  shows "\<exists>s'. add_value clk amount userName adminName s = Done OK s'
           \<and> labels (chartData s') = labels (chartData s) @ [label_now clk]
           \<and> vals (chartData s') = vals (chartData s) @ [Num amount]
           \<and> userData s' = userData s"
proof -
  have n: "\<not> isNaN amount" using assms(1) by (cases amount) auto
  show ?thesis using n assms(2) by (simp add: add_value_def Let_def addLog_def)
qed

lemma add_value_new_series:
  assumes a: "amount \<noteq> NaN" and t: "truthy userName"
    and g: "getProp s (the userName) = Absent"
  shows "\<exists>s'. add_value clk amount userName adminName s = Done OK s'
           \<and> labels (chartData s') = labels (chartData s) @ [label_now clk]
           \<and> vals (chartData s') = vals (chartData s) @ [Num amount]
           \<and> map_of (userData s') = (map_of (userData s))(the userName \<mapsto>
                \<lparr>labels = [label_now clk], vals = [Num amount],
                 entries = Some [\<lparr>e_time = label_now clk, e_value = Num amount,
                                  totalIndex = length (vals (chartData s))\<rparr>]\<rparr>)"
proof -
  have n: "\<not> isNaN amount" using a by (cases amount) auto
  note p = Absent_not_proto[OF g]
  note gs = getProp_setProp_same[OF p]
  show ?thesis using n t g p
    by (simp add: add_value_def Let_def gs addLog_def)
       (simp add: setProp_def map_of_upsert)
qed

lemma add_value_old_series:
  assumes a: "amount \<noteq> NaN" and t: "truthy userName"
    and g: "getProp s (the userName) = Own d" and e: "entries d = Some es"
  shows "\<exists>s'. add_value clk amount userName adminName s = Done OK s'
           \<and> labels (chartData s') = labels (chartData s) @ [label_now clk]
           \<and> vals (chartData s') = vals (chartData s) @ [Num amount]
           \<and> map_of (userData s') = (map_of (userData s))(the userName \<mapsto>
                \<lparr>labels = labels d @ [label_now clk], vals = vals d @ [Num amount],
                 entries = Some (es @ [\<lparr>e_time = label_now clk, e_value = Num amount,
                                        totalIndex = length (vals (chartData s))\<rparr>])\<rparr>)"
proof -
  have n: "\<not> isNaN amount" using a by (cases amount) auto
  show ?thesis using n t g e
    by (simp add: add_value_def Let_def addLog_def map_of_upsert)
qed

text \<open>
  C2, amended. The deposit is rejected (400) exactly when the parsed amount is NaN, and
  then the state is unchanged. Every other amount, the infinities included, is accepted
  (200) and appended, with the label of the clock, to the aggregate series in each of
  these cases. With no contributor named, the contributor series are unchanged. With a
  contributor named and no property of that name found on \<^verbatim>\<open>userData\<close>, neither
  an own one nor one inherited from \<^verbatim>\<open>Object.prototype\<close>, the series is created
  and holds this one label, value and entry. With a contributor named whose series has
  an \<^verbatim>\<open>entries\<close> array, the label, the value and the entry are appended to that
  series. In both cases the entry records the index of the amount in the aggregate
  series, and every other contributor's series is unchanged.
\<close>

theorem add_value_rejects_NaN_only:
  "(replied (add_value clk amount userName adminName s) = Some BadRequest) = (amount = NaN)
   \<and> (amount = NaN \<longrightarrow> add_value clk amount userName adminName s = Done BadRequest s)
   \<and> (amount \<noteq> NaN \<and> \<not> truthy userName \<longrightarrow>
        (\<exists>s'. add_value clk amount userName adminName s = Done OK s'
             \<and> labels (chartData s') = labels (chartData s) @ [label_now clk]
             \<and> vals (chartData s') = vals (chartData s) @ [Num amount]
             \<and> userData s' = userData s))
   \<and> (amount \<noteq> NaN \<and> truthy userName \<and> getProp s (the userName) = Absent \<longrightarrow>
        (\<exists>s'. add_value clk amount userName adminName s = Done OK s'
             \<and> labels (chartData s') = labels (chartData s) @ [label_now clk]
             \<and> vals (chartData s') = vals (chartData s) @ [Num amount]
             \<and> map_of (userData s') = (map_of (userData s))(the userName \<mapsto>
                  \<lparr>labels = [label_now clk], vals = [Num amount],
                   entries = Some [\<lparr>e_time = label_now clk, e_value = Num amount,
                                    totalIndex = length (vals (chartData s))\<rparr>]\<rparr>)))
   \<and> (amount \<noteq> NaN \<and> truthy userName \<and> getProp s (the userName) = Own d
        \<and> entries d = Some es \<longrightarrow>
        (\<exists>s'. add_value clk amount userName adminName s = Done OK s'
             \<and> labels (chartData s') = labels (chartData s) @ [label_now clk]
             \<and> vals (chartData s') = vals (chartData s) @ [Num amount]
             \<and> map_of (userData s') = (map_of (userData s))(the userName \<mapsto>
                  \<lparr>labels = labels d @ [label_now clk], vals = vals d @ [Num amount],
                   entries = Some (es @ [\<lparr>e_time = label_now clk, e_value = Num amount,
                                          totalIndex = length (vals (chartData s))\<rparr>])\<rparr>)))"
proof (intro conjI impI)
  show "(replied (add_value clk amount userName adminName s) = Some BadRequest) = (amount = NaN)"
    using add_value_not_BadRequest[of amount clk userName adminName s]
    by (auto simp: add_value_NaN)
next
  assume "amount = NaN"
  then show "add_value clk amount userName adminName s = Done BadRequest s"
    by (simp add: add_value_NaN)
next
  assume "amount \<noteq> NaN \<and> \<not> truthy userName"
  then show "\<exists>s'. add_value clk amount userName adminName s = Done OK s'
             \<and> labels (chartData s') = labels (chartData s) @ [label_now clk]
             \<and> vals (chartData s') = vals (chartData s) @ [Num amount]
             \<and> userData s' = userData s"
    using add_value_unnamed[of amount userName clk adminName s] by blast
next
  assume "amount \<noteq> NaN \<and> truthy userName \<and> getProp s (the userName) = Absent"
  then show "\<exists>s'. add_value clk amount userName adminName s = Done OK s'
             \<and> labels (chartData s') = labels (chartData s) @ [label_now clk]
             \<and> vals (chartData s') = vals (chartData s) @ [Num amount]
             \<and> map_of (userData s') = (map_of (userData s))(the userName \<mapsto>
                  \<lparr>labels = [label_now clk], vals = [Num amount],
                   entries = Some [\<lparr>e_time = label_now clk, e_value = Num amount,
                                    totalIndex = length (vals (chartData s))\<rparr>]\<rparr>)"
    using add_value_new_series[of amount userName s clk adminName] by blast
next
  assume "amount \<noteq> NaN \<and> truthy userName \<and> getProp s (the userName) = Own d
        \<and> entries d = Some es"
  then show "\<exists>s'. add_value clk amount userName adminName s = Done OK s'
             \<and> labels (chartData s') = labels (chartData s) @ [label_now clk]
             \<and> vals (chartData s') = vals (chartData s) @ [Num amount]
             \<and> map_of (userData s') = (map_of (userData s))(the userName \<mapsto>
                  \<lparr>labels = labels d @ [label_now clk], vals = vals d @ [Num amount],
                   entries = Some (es @ [\<lparr>e_time = label_now clk, e_value = Num amount,
                                          totalIndex = length (vals (chartData s))\<rparr>])\<rparr>)"
    using add_value_old_series[of amount userName s d es clk adminName] by blast
qed

theorem add_value_rejects_NaN_only_witness:
  "PosInfinity \<noteq> NaN \<and> truthy (Some Ana) \<and> \<not> truthy None
   \<and> getProp (init_state clock1 None) (the (Some Ana)) = Absent
   \<and> (\<exists>s'. add_value clock1 PosInfinity (Some Ana) None (init_state clock1 None) = Done OK s'
        \<and> labels (chartData s') = [label_now clock1]
        \<and> vals (chartData s') = [Num PosInfinity]
        \<and> map_of (userData s') Ana
            = Some \<lparr>labels = [label_now clock1], vals = [Num PosInfinity],
                    entries = Some [\<lparr>e_time = label_now clock1, e_value = Num PosInfinity,
                                     totalIndex = 0\<rparr>]\<rparr>)
   \<and> add_value clock1 NaN (Some Ana) None (init_state clock1 None)
       = Done BadRequest (init_state clock1 None)
   \<and> (\<exists>s'. add_value clock1 PosInfinity None None (init_state clock1 None) = Done OK s'
        \<and> vals (chartData s') = [Num PosInfinity] \<and> userData s' = [])
   \<and> getProp (the (state_after (add_value clock1 (Finite 50) (Some Ana) None
                                    (init_state clock1 None)))) (the (Some Ana))
       = Own \<lparr>labels = [label_now clock1], vals = [Num (Finite 50)],
              entries = Some [\<lparr>e_time = label_now clock1, e_value = Num (Finite 50),
                               totalIndex = 0\<rparr>]\<rparr>
   \<and> (\<exists>s'. add_value clock2 (Finite 30) (Some Ana) None
               (the (state_after (add_value clock1 (Finite 50) (Some Ana) None
                                    (init_state clock1 None)))) = Done OK s'
        \<and> vals (chartData s') = [Num (Finite 50), Num (Finite 30)]
        \<and> map_of (userData s') Ana
            = Some \<lparr>labels = [label_now clock1, label_now clock2],
                    vals = [Num (Finite 50), Num (Finite 30)],
                    entries = Some [\<lparr>e_time = label_now clock1, e_value = Num (Finite 50),
                                     totalIndex = 0\<rparr>,
                                    \<lparr>e_time = label_now clock2, e_value = Num (Finite 30),
                                     totalIndex = 1\<rparr>]\<rparr>)"
proof -
  define S where "S = the (state_after (add_value clock1 (Finite 50) (Some Ana) None
                                    (init_state clock1 None)))"
  define D where "D = \<lparr>labels = [label_now clock1], vals = [Num (Finite 50)],
              entries = Some [\<lparr>e_time = label_now clock1, e_value = Num (Finite 50),
                               totalIndex = 0\<rparr>]\<rparr>"
  have h1: "PosInfinity \<noteq> NaN" "Finite 30 \<noteq> NaN" "truthy (Some Ana)" "\<not> truthy None"
    by (simp_all add: example_defs)
  have h2: "getProp (init_state clock1 None) (the (Some Ana)) = Absent"
    by (simp add: route_defs example_defs)
  have h3: "getProp S (the (Some Ana)) = Own D" "entries D = Some [\<lparr>e_time = label_now clock1,
               e_value = Num (Finite 50), totalIndex = 0\<rparr>]"
    "vals (chartData S) = [Num (Finite 50)]"
    by (simp_all add: S_def D_def route_defs example_defs)
  have h4: "chartData (init_state clock1 None) = \<lparr>labels = [], vals = []\<rparr>"
    "userData (init_state clock1 None) = []"
    by (simp_all add: init_state_def)
  note a = add_value_rejects_NaN_only
      [of clock1 PosInfinity "Some Ana" None "init_state clock1 None"]
  note b = add_value_rejects_NaN_only
      [of clock1 NaN "Some Ana" None "init_state clock1 None"]
  note c = add_value_rejects_NaN_only
      [of clock1 PosInfinity None None "init_state clock1 None"]
  note d = add_value_rejects_NaN_only
      [of clock2 "Finite 30" "Some Ana" None S D
          "[\<lparr>e_time = label_now clock1, e_value = Num (Finite 50), totalIndex = 0\<rparr>]"]
  from a h1 h2 h4 have ra:
    "\<exists>s'. add_value clock1 PosInfinity (Some Ana) None (init_state clock1 None) = Done OK s'
        \<and> labels (chartData s') = [label_now clock1]
        \<and> vals (chartData s') = [Num PosInfinity]
        \<and> map_of (userData s') Ana
            = Some \<lparr>labels = [label_now clock1], vals = [Num PosInfinity],
                    entries = Some [\<lparr>e_time = label_now clock1, e_value = Num PosInfinity,
                                     totalIndex = 0\<rparr>]\<rparr>"
    by auto
  from b have rb: "add_value clock1 NaN (Some Ana) None (init_state clock1 None)
       = Done BadRequest (init_state clock1 None)" by simp
  from c h1 h4 have rc:
    "\<exists>s'. add_value clock1 PosInfinity None None (init_state clock1 None) = Done OK s'
        \<and> vals (chartData s') = [Num PosInfinity] \<and> userData s' = []"
    by auto
  from d h1 h3 have rd:
    "\<exists>s'. add_value clock2 (Finite 30) (Some Ana) None S = Done OK s'
        \<and> vals (chartData s') = [Num (Finite 50), Num (Finite 30)]
        \<and> map_of (userData s') Ana
            = Some \<lparr>labels = [label_now clock1, label_now clock2],
                    vals = [Num (Finite 50), Num (Finite 30)],
                    entries = Some [\<lparr>e_time = label_now clock1, e_value = Num (Finite 50),
                                     totalIndex = 0\<rparr>,
                                    \<lparr>e_time = label_now clock2, e_value = Num (Finite 30),
                                     totalIndex = 1\<rparr>]\<rparr>"
    by (auto simp: D_def)
  show ?thesis
    using h1 h2 h3(1) ra rb rc rd unfolding S_def D_def by blast
qed

subsection \<open>The invariant of the reachable states\<close>

lemma map_fst_upsert:
  "map fst (upsert k v kvs) = (if k \<in> fst ` set kvs then map fst kvs else map fst kvs @ [k])"
  by (induction kvs) (force simp: image_iff)+

lemma distinct_upsert: "distinct (map fst kvs) \<Longrightarrow> distinct (map fst (upsert k v kvs))"
  by (simp add: map_fst_upsert)

lemma set_object_keys: "set (object_keys kvs) = fst ` set kvs"
  by (auto simp: object_keys_def Let_def)

lemma distinct_object_keys: "distinct (map fst kvs) \<Longrightarrow> distinct (object_keys kvs)"
  by (auto simp: object_keys_def Let_def)

lemma findIndex_Some: "findIndex P xs = Some i \<Longrightarrow> i < length xs \<and> P (xs ! i)"
  by (induction xs arbitrary: i) (auto split: if_splits)

lemma find_None_all: "find P xs = None \<Longrightarrow> \<forall>x\<in>set xs. \<not> P x"
  by (simp add: find_None_iff)

lemma user_ok_mono: "user_ok n kv \<Longrightarrow> n \<le> m \<Longrightarrow> user_ok m kv"
  by (auto simp: user_ok_def list_all_iff split: option.splits)

lemma list_all_user_ok_mono: "list_all (user_ok n) kvs \<Longrightarrow> n \<le> m \<Longrightarrow> list_all (user_ok m) kvs"
  by (auto simp: list_all_iff intro: user_ok_mono)

lemma invariant_addLog [simp]: "invariant (addLog clk a act det s) = invariant s"
  by (simp add: invariant_def addLog_def)

lemma invariant_init: "clock_ok clk \<Longrightarrow> invariant (init_state clk file)"
  by (simp add: invariant_def init_state_def clock_ok_def js_def)


lemma setProp_fields [simp]:
  "chartData (setProp k v s) = chartData s"
  "currentMonth (setProp k v s) = currentMonth s"
  "teamData (setProp k v s) = teamData s"
  "monthlyHistory (setProp k v s) = monthlyHistory s"
  "logs (setProp k v s) = logs s"
  "credentials (setProp k v s) = credentials s"
  by (simp_all add: setProp_def)

lemma setProp_users_ok:
  assumes "distinct (map fst (userData s))" "list_all (user_ok n) (userData s)"
    and "k \<noteq> []" "user_ok n (k, v) \<or> k = js ''__proto__''"
  shows "distinct (map fst (userData (setProp k v s)))
         \<and> list_all (user_ok n) (userData (setProp k v s))"
proof (cases "k = js ''__proto__'' \<and> map_of (userData s) k = None")
  case True
  then have "setProp k v s = s\<lparr>protoReplaced := True\<rparr>"
    unfolding setProp_def by (rule if_P)
  then show ?thesis using assms(1,2) by simp
next
  case False
  have "user_ok n (k, v)"
  proof (cases "k = js ''__proto__''")
    case True
    with False obtain d where "map_of (userData s) k = Some d" by auto
    then have "(k, d) \<in> set (userData s)" by (rule map_of_SomeD)
    with assms(2) have "user_ok n (k, d)" by (auto simp: list_all_iff)
    with True show ?thesis by (simp add: user_ok_def)
  next
    case False
    with assms(4) show ?thesis by simp
  qed
  with False assms show ?thesis
    by (auto simp: setProp_def intro: distinct_upsert list_all_upsert)
qed

lemma invariant_add_value:
  assumes inv: "invariant s" and clk: "clock_ok clk"
    and st: "add_value clk amount userName adminName s = Done r s'"
  shows "invariant s'"
proof (cases "isNaN amount")
  case True
  with st inv show ?thesis by (simp add: add_value_def)
next
  case n: False
  define n where "n = length (labels (chartData s))"
  define s1 where "s1 = s\<lparr>chartData := \<lparr>labels = labels (chartData s) @ [label_now clk],
                    vals = vals (chartData s) @ [Num amount]\<rparr>\<rparr>"
  have lbl: "label_now clk \<noteq> []" using clk by (simp add: clock_ok_def)
  have len1: "length (labels (chartData s1)) = Suc n" "length (vals (chartData s1)) = Suc n"
    using inv by (auto simp: invariant_def s1_def n_def)
  have i1: "invariant s1"
    using inv by (auto simp: invariant_def s1_def intro: list_all_user_ok_mono)
  show ?thesis
  proof (cases "truthy userName")
    case False
    with st n i1 show ?thesis by (auto simp: add_value_def Let_def s1_def)
  next
    case True
    define u where "u = the userName"
    define s2 where "s2 = (if getProp s1 u = Absent
               then setProp u \<lparr>labels = [], vals = [], entries = Some []\<rparr> s1 else s1)"
    have u: "u \<noteq> []" using True by (cases userName) (auto simp: u_def)
    have c2: "chartData s2 = chartData s1" by (simp add: s2_def)
    have d1: "distinct (map fst (userData s1))"
      and a1: "list_all (user_ok (Suc n)) (userData s1)"
      using i1 len1 by (auto simp: invariant_def)
    have da2: "distinct (map fst (userData s2)) \<and> list_all (user_ok (Suc n)) (userData s2)"
    proof (cases "getProp s1 u = Absent")
      case False
      then show ?thesis using d1 a1 by (simp add: s2_def)
    next
      case A: True
      then have np: "u \<noteq> js ''__proto__''" using Absent_not_proto by simp
      have e: "user_ok (Suc n) (u, \<lparr>labels = [], vals = [], entries = Some []\<rparr>)
                 \<or> u = js ''__proto__''"
        using u np by (simp add: user_ok_def)
      from setProp_users_ok[OF d1 a1 u e] A show ?thesis by (simp add: s2_def)
    qed
    from st n True obtain d es where
      g: "getProp s2 u = Own d" and e: "entries d = Some es"
      and s': "s' = addLog clk adminName ''deposit'' (DepositDetails u amount (label_now clk))
                 (s2\<lparr>userData := upsert u
                 \<lparr>labels = labels d @ [label_now clk], vals = vals d @ [Num amount],
                  entries = Some (es @ [\<lparr>e_time = label_now clk, e_value = Num amount,
                     totalIndex = length (vals (chartData s1)) - 1\<rparr>])\<rparr> (userData s2)\<rparr>)"
      unfolding add_value_def Let_def s1_def[symmetric] u_def[symmetric] s2_def[symmetric]
      by (auto split: property.splits option.splits)
    from getProp_Own_mem[OF g] da2 have ok: "user_ok (Suc n) (u, d)"
      by (auto simp: list_all_iff)
    have ok': "user_ok (Suc n) (u,
                 \<lparr>labels = labels d @ [label_now clk], vals = vals d @ [Num amount],
                  entries = Some (es @ [\<lparr>e_time = label_now clk, e_value = Num amount,
                     totalIndex = length (vals (chartData s1)) - 1\<rparr>])\<rparr>)"
      using ok e lbl len1 by (simp add: user_ok_def)
    have fin: "distinct (map fst (upsert u
                 \<lparr>labels = labels d @ [label_now clk], vals = vals d @ [Num amount],
                  entries = Some (es @ [\<lparr>e_time = label_now clk, e_value = Num amount,
                     totalIndex = length (vals (chartData s1)) - 1\<rparr>])\<rparr> (userData s2)))"
      "list_all (user_ok (Suc n)) (upsert u
                 \<lparr>labels = labels d @ [label_now clk], vals = vals d @ [Num amount],
                  entries = Some (es @ [\<lparr>e_time = label_now clk, e_value = Num amount,
                     totalIndex = length (vals (chartData s1)) - 1\<rparr>])\<rparr> (userData s2))"
      using ok' da2 by (auto intro: distinct_upsert list_all_upsert)
    have rest: "currentMonth s2 = currentMonth s1" "teamData s2 = teamData s1"
      "monthlyHistory s2 = monthlyHistory s1"
      by (simp_all add: s2_def)
    show ?thesis unfolding s' invariant_addLog
      using i1 fin len1 by (simp add: invariant_def c2 rest)
  qed
qed



lemma find_team_None: "find (\<lambda>m. m_id m = i) ms = None \<Longrightarrow> i \<notin> set (map m_id ms)"
  by (auto simp: find_None_iff)

lemma map_m_id_update:
  "idx < length ms \<Longrightarrow> m_id m = m_id (ms ! idx) \<Longrightarrow> map m_id (ms[idx := m]) = map m_id ms"
  by (simp add: map_update list_update_same_conv)

lemma put_team_ids:
  "map m_id (teamData (snd (put_team clk i nm descr adminName s))) = map m_id (teamData s)"
  by (auto simp: put_team_def Let_def addLog_def map_m_id_update
           split: option.splits dest!: findIndex_Some)

lemma put_team_rest:
  "put_team clk i nm descr adminName s = (r, s') \<Longrightarrow>
     chartData s' = chartData s \<and> userData s' = userData s \<and> currentMonth s' = currentMonth s
     \<and> monthlyHistory s' = monthlyHistory s \<and> protoReplaced s' = protoReplaced s
     \<and> credentials s' = credentials s"
  by (auto simp: put_team_def Let_def addLog_def split: option.splits if_splits)

lemma invariant_cong:
  "chartData s' = chartData s \<Longrightarrow> userData s' = userData s \<Longrightarrow>
   currentMonth s' = currentMonth s \<Longrightarrow> map m_id (teamData s') = map m_id (teamData s) \<Longrightarrow>
   monthlyHistory s' = monthlyHistory s \<Longrightarrow> invariant s' = invariant s"
  by (simp add: invariant_def)

lemma invariant_teamData:
  "invariant s \<Longrightarrow> distinct (map m_id ms) \<Longrightarrow> invariant (s\<lparr>teamData := ms\<rparr>)"
  by (auto simp: invariant_def)

lemma invariant_userData:
  "invariant s \<Longrightarrow> distinct (map fst kvs) \<Longrightarrow>
   list_all (user_ok (length (labels (chartData s)))) kvs \<Longrightarrow> invariant (s\<lparr>userData := kvs\<rparr>)"
  by (auto simp: invariant_def)

lemma invariantD:
  assumes "invariant s"
  shows "length (labels (chartData s)) = length (vals (chartData s))"
    and "distinct (map fst (userData s))"
    and "list_all (user_ok (length (labels (chartData s)))) (userData s)"
    and "currentMonth s \<noteq> []"
    and "distinct (map m_id (teamData s))"
    and "list_all snapshot_ok (monthlyHistory s)"
  using assms by (auto simp: invariant_def)

lemma invariant_post_team:
  assumes "invariant s" "post_team U clk nm descr adminName s = (r, s')"
  shows "invariant s'"
  using assms invariantD(5)[OF assms(1)]
  by (auto simp: post_team_def Let_def split: if_splits option.splits
           dest!: find_team_None intro!: invariant_teamData)

lemma invariant_put_team:
  assumes "invariant s" "put_team clk i nm descr adminName s = (r, s')"
  shows "invariant s'"
proof -
  from put_team_ids[of clk i nm descr adminName s] assms(2)
  have "map m_id (teamData s') = map m_id (teamData s)" by simp
  with put_team_rest[OF assms(2)] have "invariant s' = invariant s"
    by (intro invariant_cong) simp_all
  with assms(1) show ?thesis by simp
qed

lemma distinct_take_drop: "distinct xs \<Longrightarrow> distinct (take i xs @ drop (Suc i) xs)"
proof -
  assume d: "distinct xs"
  have "set (take i xs) \<inter> set (drop (Suc i) xs) \<subseteq> set (take i xs) \<inter> set (drop i xs)"
    using set_drop_subset_set_drop[of i "Suc i" xs] by auto
  also have "\<dots> = {}" using d by (metis append_take_drop_id distinct_append)
  finally show ?thesis using d by (simp add: distinct_take distinct_drop)
qed

lemma invariant_delete_team:
  assumes "invariant s" "delete_team clk i adminName s = (r, s')"
  shows "invariant s'"
proof -
  have "distinct (map m_id (take idx (teamData s) @ drop (Suc idx) (teamData s)))" for idx
    using distinct_take_drop[OF invariantD(5)[OF assms(1)], of idx]
    by (simp add: take_map drop_map)
  then show ?thesis using assms
    by (auto simp: delete_team_def Let_def split: if_splits option.splits
             intro!: invariant_teamData)
qed




lemma user_ok_put_entry:
  assumes "user_ok n (k, d)" "entries d = Some es" "t \<noteq> []" "i < length es"
  shows "user_ok n (k, d\<lparr>labels := (if i < length (labels d) \<and> labels d ! i \<noteq> []
                                    then (labels d)[i := t] else labels d),
                          entries := Some (es[i := (es ! i)\<lparr>e_time := t\<rparr>])\<rparr>)"
proof -
  have "list_all (\<lambda>l. l \<noteq> []) ((labels d)[i := t])"
    using assms(1,3) by (auto simp: user_ok_def list_all_iff dest: set_update_subset_insert[THEN subsetD])
  moreover have "list_all (\<lambda>e. totalIndex e < n) (es[i := (es ! i)\<lparr>e_time := t\<rparr>])"
    using assms(1,2,4)
    by (auto simp: user_ok_def list_all_iff dest!: set_update_subset_insert[THEN subsetD])
  ultimately show ?thesis using assms(1,2) by (simp add: user_ok_def)
qed

lemma put_entry_found:
  assumes "truthy userName" "truthy newTime" "getProp s (the userName) = Own d"
    and "entries d = Some es" "0 \<le> idx" "idx < int (length es)"
  shows "put_entry clk userName (Index idx) newTime adminName s =
    (OK, addLog clk adminName ''editEntryTime''
           (EditEntryDetails (the userName) idx (e_time (es ! nat idx)) (the newTime))
           (s\<lparr>userData := upsert (the userName)
                 (d\<lparr>labels := (if nat idx < length (labels d) \<and> labels d ! nat idx \<noteq> []
                                then (labels d)[nat idx := the newTime] else labels d),
                    entries := Some (es[nat idx := (es ! nat idx)\<lparr>e_time := the newTime\<rparr>])\<rparr>)
                 (userData s),
              chartData := (chartData s)\<lparr>labels :=
                 (if totalIndex (es ! nat idx) < length (labels (chartData s))
                  then (labels (chartData s))[totalIndex (es ! nat idx) := the newTime]
                  else labels (chartData s))\<rparr>\<rparr>))"
  using assms by (simp add: put_entry_def Let_def)

lemma put_entry_cases:
  assumes "put_entry clk userName index newTime adminName s = (r, s')"
  shows "(s' = s \<and> r \<noteq> OK)
         \<or> (\<exists>idx d es. index = Index idx \<and> truthy userName \<and> truthy newTime
               \<and> getProp s (the userName) = Own d \<and> entries d = Some es
               \<and> 0 \<le> idx \<and> idx < int (length es))"
proof (cases "\<not> truthy userName \<or> index = IndexMissing \<or> \<not> truthy newTime")
  case True
  with assms show ?thesis by (auto simp: put_entry_def)
next
  case f: False
  show ?thesis
  proof (cases index)
    case IndexMissing
    with f show ?thesis by simp
  next
    case IndexNaN
    with assms f show ?thesis by (auto simp: put_entry_def)
  next
    case (Index idx)
    show ?thesis
    proof (cases "getProp s (the userName)")
      case Absent
      with assms f Index show ?thesis by (auto simp: put_entry_def)
    next
      case Inherited
      with assms f Index show ?thesis by (auto simp: put_entry_def)
    next
      case (Own d)
      show ?thesis
      proof (cases "entries d")
        case None
        with assms f Index Own show ?thesis by (auto simp: put_entry_def)
      next
        case (Some es)
        show ?thesis
        proof (cases "idx < 0 \<or> idx \<ge> int (length es)")
          case True
          with assms f Index Own Some show ?thesis by (auto simp: put_entry_def)
        next
          case False
          with f Index Own Some show ?thesis by auto
        qed
      qed
    qed
  qed
qed

lemma invariant_put_entry:
  assumes inv: "invariant s" and st: "put_entry clk userName index newTime adminName s = (r, s')"
  shows "invariant s'"
  using put_entry_cases[OF st]
proof (elim disjE exE conjE)
  assume "s' = s"
  with inv show ?thesis by simp
next
  fix idx d es
  assume a: "index = Index idx" "truthy userName" "truthy newTime"
    "getProp s (the userName) = Own d" "entries d = Some es" "0 \<le> idx" "idx < int (length es)"
  define u where "u = the userName"
  define t where "t = the newTime"
  have tn: "t \<noteq> []" using a(3) by (cases newTime) (auto simp: t_def)
  have il: "nat idx < length es" using a(6,7) by simp
  from getProp_Own_mem[OF a(4)] invariantD(3)[OF inv]
  have ok: "user_ok (length (labels (chartData s))) (u, d)" by (auto simp: list_all_iff u_def)
  note ok' = user_ok_put_entry[OF ok a(5) tn il]
  have "invariant (s\<lparr>userData := upsert u
                         (d\<lparr>labels := (if nat idx < length (labels d) \<and> labels d ! nat idx \<noteq> []
                                        then (labels d)[nat idx := t] else labels d),
                            entries := Some (es[nat idx := (es ! nat idx)\<lparr>e_time := t\<rparr>])\<rparr>)
                         (userData s)\<rparr>)" (is "invariant ?s1")
    using invariantD(2,3)[OF inv] ok'
    by (intro invariant_userData[OF inv] distinct_upsert list_all_upsert)
  then have "invariant (?s1\<lparr>chartData := (chartData s)\<lparr>labels :=
                         (if totalIndex (es ! nat idx) < length (labels (chartData s))
                          then (labels (chartData s))[totalIndex (es ! nat idx) := t]
                          else labels (chartData s))\<rparr>\<rparr>)"
    by (auto simp: invariant_def)
  then show ?thesis using st unfolding a(1) put_entry_found[OF a(2-7)] u_def t_def by auto
qed

lemma invariant_delete_users:
  assumes inv: "invariant s" and st: "delete_users U clk i adminName s = (r, s')"
  shows "invariant s'"
proof -
  have "invariant (deleteProp k s)" for k
    unfolding deleteProp_def using invariantD(2,3)[OF inv]
    by (intro invariant_userData[OF inv]) (auto simp: distinct_map_filter list_all_iff)
  then show ?thesis using assms
    by (auto simp: delete_users_def split: if_splits option.splits)
qed

lemma invariant_setProp:
  assumes inv: "invariant s" and k: "k \<noteq> []"
    and ok: "user_ok (length (labels (chartData s))) (k, v) \<or> k = js ''__proto__''"
  shows "invariant (setProp k v s)"
proof -
  note sp = setProp_users_ok[OF invariantD(2,3)[OF inv] k ok]
  have "setProp k v s = s\<lparr>userData := userData (setProp k v s)\<rparr>
        \<or> setProp k v s = s\<lparr>protoReplaced := True\<rparr>"
    by (auto simp: setProp_def)
  then show ?thesis
  proof
    assume a: "setProp k v s = s\<lparr>userData := userData (setProp k v s)\<rparr>"
    show ?thesis by (subst a) (intro invariant_userData[OF inv] conjunct1[OF sp] conjunct2[OF sp])
  next
    assume "setProp k v s = s\<lparr>protoReplaced := True\<rparr>"
    then show ?thesis using inv by (auto simp: invariant_def)
  qed
qed

lemma find_key_mem: "find_key U i s = Some key \<Longrightarrow> \<exists>d. map_of (userData s) key = Some d"
proof -
  assume "find_key U i s = Some key"
  then have "key \<in> set (object_keys (userData s))"
    by (auto simp: find_key_def find_Some_iff)
  then have "key \<in> fst ` set (userData s)" by (simp add: set_object_keys)
  then show ?thesis by (metis domIff dom_map_of_conv_image_fst not_None_eq)
qed

lemma invariant_put_users:
  assumes inv: "invariant s" and st: "put_users U clk i adminName newName s = (r, s')"
  shows "invariant s'"
proof (cases "r = OK")
  case False
  with st have "s' = s"
    by (auto simp: put_users_def Let_def split: if_splits option.splits)
  with inv show ?thesis by simp
next
  case True
  with st obtain key where
    nn: "truthy newName" and fk: "find_key U i s = Some key"
    and s': "s' = addLog clk adminName ''userRename'' (UserRenameDetails key (the newName))
                   (setProp (the newName)
                      \<lparr>labels = labels (the (map_of (userData s) key)),
                       vals = vals (the (map_of (userData s) key)), entries = None\<rparr>
                      (deleteProp key s))"
    by (auto simp: put_users_def Let_def split: if_splits option.splits)
  from find_key_mem[OF fk] obtain d where d: "map_of (userData s) key = Some d" by blast
  then have "(key, d) \<in> set (userData s)" by (rule map_of_SomeD)
  with invariantD(3)[OF inv] have ok: "user_ok (length (labels (chartData s))) (key, d)"
    by (auto simp: list_all_iff)
  have nne: "the newName \<noteq> []" using nn by (cases newName) auto
  have i1: "invariant (deleteProp key s)"
    unfolding deleteProp_def using invariantD(2,3)[OF inv]
    by (intro invariant_userData[OF inv]) (auto simp: distinct_map_filter list_all_iff)
  have c: "chartData (deleteProp key s) = chartData s" by (simp add: deleteProp_def)
  have "user_ok (length (labels (chartData (deleteProp key s))))
          (the newName, \<lparr>labels = labels d, vals = vals d, entries = None\<rparr>)
        \<or> the newName = js ''__proto__''"
    using ok nne by (auto simp: user_ok_def c)
  from invariant_setProp[OF i1 nne this] show ?thesis
    unfolding s' d by simp
qed



lemma addLog_fields [simp]:
  "chartData (addLog clk a act det s) = chartData s"
  "userData (addLog clk a act det s) = userData s"
  "protoReplaced (addLog clk a act det s) = protoReplaced s"
  "currentMonth (addLog clk a act det s) = currentMonth s"
  "teamData (addLog clk a act det s) = teamData s"
  "monthlyHistory (addLog clk a act det s) = monthlyHistory s"
  "credentials (addLog clk a act det s) = credentials s"
  by (simp_all add: addLog_def)



lemma map_of_object_keys:
  "k \<in> set (object_keys kvs) \<Longrightarrow> (k, the (map_of kvs k)) \<in> set kvs"
proof -
  assume "k \<in> set (object_keys kvs)"
  then have "k \<in> fst ` set kvs" by (simp add: set_object_keys)
  then obtain d where "map_of kvs k = Some d"
    by (metis domIff dom_map_of_conv_image_fst not_None_eq)
  then show ?thesis by (auto dest: map_of_SomeD)
qed

lemma map_fst_json_users: "map fst (json_users kvs) = object_keys kvs"
  by (simp add: json_users_def comp_def)

lemma snapshot_users_ok:
  assumes "list_all (user_ok n) kvs"
  shows "list_all (\<lambda>kv. user_ok 0 (fst kv, (snd kv)\<lparr>entries := None\<rparr>)) (json_users kvs)"
proof -
  have "user_ok 0 (k, (json_user (the (map_of kvs k)))\<lparr>entries := None\<rparr>)"
    if "k \<in> set (object_keys kvs)" for k
  proof -
    from map_of_object_keys[OF that] assms have "user_ok n (k, the (map_of kvs k))"
      by (auto simp: list_all_iff)
    then show ?thesis by (simp add: user_ok_def json_user_def)
  qed
  then show ?thesis by (simp add: json_users_def list_all_iff)
qed

lemma invariant_reset_month:
  assumes inv: "invariant s" and clk: "clock_ok clk"
    and st: "reset_month clk adminName s = (r, s')"
  shows "invariant s'"
proof -
  have "snapshot_ok \<lparr>month = currentMonth s,
                  chart = \<lparr>labels = labels (chartData s), vals = vals (chartData s)\<rparr>,
                  users = json_users (userData s),
                  team = teamData s\<rparr>"
    using invariantD[OF inv] snapshot_users_ok[OF invariantD(3)[OF inv]]
    by (simp add: snapshot_ok_def map_fst_json_users distinct_object_keys)
  moreover have "take 7 (isoString clk) \<noteq> []"
    using clk by (cases "isoString clk") (auto simp: clock_ok_def)
  moreover have "s' = addLog clk adminName ''resetMonth''
       (ResetMonthDetails (currentMonth s) (take 7 (isoString clk)))
       (s\<lparr>monthlyHistory := monthlyHistory s @
            [\<lparr>month = currentMonth s,
              chart = \<lparr>labels = labels (chartData s), vals = vals (chartData s)\<rparr>,
              users = json_users (userData s), team = teamData s\<rparr>],
          chartData := \<lparr>labels = [], vals = []\<rparr>, userData := [],
          currentMonth := take 7 (isoString clk)\<rparr>)"
    using st by (simp add: reset_month_def Let_def)
  ultimately show ?thesis using invariantD[OF inv]
    by (simp add: invariant_def)
qed

lemma restore_user_fields [simp]:
  "chartData (restore_user us s k) = chartData s"
  "currentMonth (restore_user us s k) = currentMonth s"
  "teamData (restore_user us s k) = teamData s"
  "monthlyHistory (restore_user us s k) = monthlyHistory s"
  "logs (restore_user us s k) = logs s"
  "credentials (restore_user us s k) = credentials s"
  by (simp_all add: restore_user_def Let_def)

lemma foldl_restore_user_chartData [simp]:
  "chartData (foldl (restore_user us) s ks) = chartData s"
  by (induction ks arbitrary: s) simp_all

lemma foldl_restore_user_currentMonth [simp]:
  "currentMonth (foldl (restore_user us) s ks) = currentMonth s"
  by (induction ks arbitrary: s) simp_all

lemma foldl_restore_user_teamData [simp]:
  "teamData (foldl (restore_user us) s ks) = teamData s"
  by (induction ks arbitrary: s) simp_all

lemma foldl_restore_user_monthlyHistory [simp]:
  "monthlyHistory (foldl (restore_user us) s ks) = monthlyHistory s"
  by (induction ks arbitrary: s) simp_all

lemma foldl_restore_user_logs [simp]:
  "logs (foldl (restore_user us) s ks) = logs s"
  by (induction ks arbitrary: s) simp_all

lemma foldl_restore_user_credentials [simp]:
  "credentials (foldl (restore_user us) s ks) = credentials s"
  by (induction ks arbitrary: s) simp_all

lemma invariant_foldl_restore_user:
  assumes "invariant s"
    and "\<forall>k\<in>set ks. k \<noteq> [] \<and> user_ok 0 (k, (the (map_of us k))\<lparr>entries := None\<rparr>)"
  shows "invariant (foldl (restore_user us) s ks)"
  using assms
proof (induction ks arbitrary: s)
  case Nil
  then show ?case by simp
next
  case (Cons k ks)
  from Cons.prems(2) have k: "k \<noteq> []"
    and ok: "user_ok 0 (k, (the (map_of us k))\<lparr>entries := None\<rparr>)" by auto
  have "user_ok (length (labels (chartData s)))
          (k, \<lparr>labels = labels (the (map_of us k)), vals = vals (the (map_of us k)),
               entries = None\<rparr>) \<or> k = js ''__proto__''"
    using ok by (simp add: user_ok_def)
  from invariant_setProp[OF Cons.prems(1) k this]
  have "invariant (restore_user us s k)" by (simp add: restore_user_def Let_def)
  from Cons.IH[OF this] Cons.prems(2) show ?case by simp
qed

lemma restore_month_found:
  assumes "truthy mon" "find (\<lambda>h. month h = the mon) (monthlyHistory s) = Some snap"
  shows "restore_month clk adminName mon s =
     (OK, addLog clk adminName ''restoreMonth'' (RestoreMonthDetails (the mon))
            ((foldl (restore_user (users snap))
                (s\<lparr>chartData := \<lparr>labels = labels (chart snap), vals = vals (chart snap)\<rparr>,
                   userData := []\<rparr>)
                (object_keys (users snap)))
             \<lparr>teamData := team snap, currentMonth := month snap\<rparr>))"
  using assms by (simp add: restore_month_def Let_def)

lemma restore_month_cases:
  assumes "restore_month clk adminName mon s = (r, s')"
  shows "(s' = s \<and> r \<noteq> OK)
         \<or> (\<exists>snap. truthy mon \<and> find (\<lambda>h. month h = the mon) (monthlyHistory s) = Some snap)"
proof (cases "truthy mon")
  case False
  with assms show ?thesis by (simp add: restore_month_def)
next
  case True
  show ?thesis
  proof (cases "find (\<lambda>h. month h = the mon) (monthlyHistory s)")
    case None
    with assms True show ?thesis by (simp add: restore_month_def)
  next
    case (Some snap)
    with True show ?thesis by simp
  qed
qed

lemma invariant_currentMonth:
  "invariant s \<Longrightarrow> m \<noteq> [] \<Longrightarrow> invariant (s\<lparr>currentMonth := m\<rparr>)"
  by (auto simp: invariant_def)

lemma snapshot_okD:
  assumes "snapshot_ok h"
  shows "month h \<noteq> []"
    and "length (labels (chart h)) = length (vals (chart h))"
    and "distinct (map fst (users h))"
    and "list_all (\<lambda>kv. user_ok 0 (fst kv, (snd kv)\<lparr>entries := None\<rparr>)) (users h)"
    and "distinct (map m_id (team h))"
  using assms unfolding snapshot_ok_def by blast+

lemma find_Some_mem: "find P xs = Some x \<Longrightarrow> x \<in> set xs \<and> P x"
  by (auto simp: find_Some_iff)

lemma invariant_restore_month:
  assumes inv: "invariant s" and st: "restore_month clk adminName mon s = (r, s')"
  shows "invariant s'"
  using restore_month_cases[OF st]
proof (elim disjE exE conjE)
  assume "s' = s"
  with inv show ?thesis by simp
next
  fix snap
  assume tm: "truthy mon" and f: "find (\<lambda>h. month h = the mon) (monthlyHistory s) = Some snap"
  define s2 where "s2 = foldl (restore_user (users snap))
                   (s\<lparr>chartData := \<lparr>labels = labels (chart snap), vals = vals (chart snap)\<rparr>,
                      userData := []\<rparr>)
                   (object_keys (users snap))"
  have s': "s' = addLog clk adminName ''restoreMonth'' (RestoreMonthDetails (the mon))
                  (s2\<lparr>teamData := team snap, currentMonth := month snap\<rparr>)"
    using st unfolding restore_month_found[OF tm f] s2_def by simp
  from find_Some_mem[OF f] invariantD(6)[OF inv] have so: "snapshot_ok snap"
    by (simp add: list_all_iff)
  have i1: "invariant (s\<lparr>chartData := \<lparr>labels = labels (chart snap), vals = vals (chart snap)\<rparr>,
                      userData := []\<rparr>)"
    using invariantD[OF inv] snapshot_okD(2)[OF so] by (simp add: invariant_def)
  have "\<forall>k\<in>set (object_keys (users snap)).
          k \<noteq> [] \<and> user_ok 0 (k, (the (map_of (users snap) k))\<lparr>entries := None\<rparr>)"
  proof
    fix k assume "k \<in> set (object_keys (users snap))"
    from map_of_object_keys[OF this] snapshot_okD(4)[OF so]
    have "user_ok 0 (k, (the (map_of (users snap) k))\<lparr>entries := None\<rparr>)"
      unfolding list_all_iff by fastforce
    then show "k \<noteq> [] \<and> user_ok 0 (k, (the (map_of (users snap) k))\<lparr>entries := None\<rparr>)"
      by (simp add: user_ok_def)
  qed
  from invariant_foldl_restore_user[OF i1 this] have i2: "invariant s2" by (simp add: s2_def)
  have "invariant (s2\<lparr>teamData := team snap, currentMonth := month snap\<rparr>)"
    by (intro invariant_currentMonth invariant_teamData i2 snapshot_okD(1,5)[OF so])
  then show ?thesis unfolding s' by simp
qed

lemma accounts_frame:
  "handleRegister U clk nm pw s = (r, s') \<Longrightarrow>
     chartData s' = chartData s \<and> userData s' = userData s \<and> currentMonth s' = currentMonth s
     \<and> teamData s' = teamData s \<and> monthlyHistory s' = monthlyHistory s
     \<and> protoReplaced s' = protoReplaced s"
  "handleLogin U clk nm pw s = (r, s') \<Longrightarrow>
     chartData s' = chartData s \<and> userData s' = userData s \<and> currentMonth s' = currentMonth s
     \<and> teamData s' = teamData s \<and> monthlyHistory s' = monthlyHistory s
     \<and> protoReplaced s' = protoReplaced s"
  "change_password U clk adminName newPassword s = (r, s') \<Longrightarrow>
     chartData s' = chartData s \<and> userData s' = userData s \<and> currentMonth s' = currentMonth s
     \<and> teamData s' = teamData s \<and> monthlyHistory s' = monthlyHistory s
     \<and> protoReplaced s' = protoReplaced s"
  "delete_logs U clk adminName s = (r, s') \<Longrightarrow>
     chartData s' = chartData s \<and> userData s' = userData s \<and> currentMonth s' = currentMonth s
     \<and> teamData s' = teamData s \<and> monthlyHistory s' = monthlyHistory s
     \<and> protoReplaced s' = protoReplaced s"
  "upload_hero clk adminName up s = (r, s') \<Longrightarrow>
     chartData s' = chartData s \<and> userData s' = userData s \<and> currentMonth s' = currentMonth s
     \<and> teamData s' = teamData s \<and> monthlyHistory s' = monthlyHistory s
     \<and> protoReplaced s' = protoReplaced s"
  by (auto simp: handleRegister_def handleLogin_def change_password_def delete_logs_def
        upload_hero_def Let_def
      split: if_splits option.splits upload.splits)

lemma invariant_accounts:
  "invariant s \<Longrightarrow> handleRegister U clk nm pw s = (r, s') \<Longrightarrow> invariant s'"
  "invariant s \<Longrightarrow> handleLogin U clk nm pw s = (r, s') \<Longrightarrow> invariant s'"
  "invariant s \<Longrightarrow> change_password U clk adminName newPassword s = (r, s') \<Longrightarrow> invariant s'"
  "invariant s \<Longrightarrow> delete_logs U clk adminName s = (r, s') \<Longrightarrow> invariant s'"
  "invariant s \<Longrightarrow> upload_hero clk adminName up s = (r, s') \<Longrightarrow> invariant s'"
  using accounts_frame(1)[of U clk nm pw s r s'] accounts_frame(2)[of U clk nm pw s r s']
    accounts_frame(3)[of U clk adminName newPassword s r s']
    accounts_frame(4)[of U clk adminName s r s'] accounts_frame(5)[of clk adminName up s r s']
  by (simp_all add: invariant_cong[of s' s])

lemma invariant_step:
  assumes "invariant s" "clock_ok clk" "step U clk req s = Done r s'"
  shows "invariant s'"
proof (cases req)
  case (Add amount userName adminName)
  with assms show ?thesis by (auto intro: invariant_add_value)
next
  case (PostTeam nm descr adminName)
  with assms show ?thesis
    by (cases "post_team U clk nm descr adminName s") (auto simp: finished_def intro: invariant_post_team)
next
  case (PutTeam i nm descr adminName)
  with assms show ?thesis
    by (cases "put_team clk i nm descr adminName s") (auto simp: finished_def intro: invariant_put_team)
next
  case (DeleteTeam i adminName)
  with assms show ?thesis
    by (cases "delete_team clk i adminName s") (auto simp: finished_def intro: invariant_delete_team)
next
  case (PutEntry userName index newTime adminName)
  with assms show ?thesis
    by (cases "put_entry clk userName index newTime adminName s")
       (auto simp: finished_def intro: invariant_put_entry)
next
  case (DeleteUsers i adminName)
  with assms show ?thesis
    by (cases "delete_users U clk i adminName s") (auto simp: finished_def intro: invariant_delete_users)
next
  case (PutUsers i adminName newName)
  with assms show ?thesis
    by (cases "put_users U clk i adminName newName s") (auto simp: finished_def intro: invariant_put_users)
next
  case (ResetMonth adminName)
  with assms show ?thesis
    by (cases "reset_month clk adminName s") (auto simp: finished_def intro: invariant_reset_month)
next
  case (RestoreMonth adminName mon)
  with assms show ?thesis
    by (cases "restore_month clk adminName mon s") (auto simp: finished_def intro: invariant_restore_month)
next
  case (Register nm pw)
  with assms show ?thesis
    by (cases "handleRegister U clk nm pw s") (auto simp: finished_def intro: invariant_accounts)
next
  case (Login nm pw)
  with assms show ?thesis
    by (cases "handleLogin U clk nm pw s") (auto simp: finished_def intro: invariant_accounts)
next
  case (ChangePassword adminName newPassword)
  with assms show ?thesis
    by (cases "change_password U clk adminName newPassword s")
       (auto simp: finished_def intro: invariant_accounts)
next
  case (DeleteLogs adminName)
  with assms show ?thesis
    by (cases "delete_logs U clk adminName s") (auto simp: finished_def intro: invariant_accounts)
next
  case (UploadHero adminName up)
  with assms show ?thesis
    by (cases "upload_hero clk adminName up s") (auto simp: finished_def intro: invariant_accounts)
qed

lemma reachable_invariant: "reachable U s \<Longrightarrow> invariant s"
  by (induction rule: reachable.induct) (auto intro: invariant_init invariant_step)


lemma run_reachable:
  "reachable U s \<Longrightarrow> list_all clock_ok (map fst reqs) \<Longrightarrow> run U reqs s = Some s' \<Longrightarrow> reachable U s'"
proof (induction reqs arbitrary: s)
  case Nil
  then show ?case by simp
next
  case (Cons cr reqs)
  obtain clk req where cr: "cr = (clk, req)" by (cases cr)
  from Cons.prems(3) cr obtain r s1 where st: "step U clk req s = Done r s1"
    and rest: "run U reqs s1 = Some s'"
    by (auto split: outcome.splits)
  from Cons.prems(2) cr have "clock_ok clk" "list_all clock_ok (map fst reqs)" by auto
  with Cons.IH[OF reachable.after[OF Cons.prems(1) _ st] _ rest] show ?case by simp
qed


lemma reachable_init: "reachable ascii (init_state clock1 None)"
  by (rule reachable.initial) (simp add: clock_ok_def clock1_def label_now_def js_def)

lemma clock_ok_examples: "clock_ok clock1" "clock_ok clock2"
  by (simp_all add: clock_ok_def clock1_def clock2_def label_now_def js_def)

subsection \<open>The roster\<close>

lemma post_team_result:
  "post_team U clk nm descr adminName s = (OK, s') \<Longrightarrow>
     teamData s' = teamData s @
       [\<lparr>m_id = team_id U (the nm), m_name = the nm,
         description = (if truthy descr then the descr else [])\<rparr>]"
  by (auto simp: post_team_def Let_def split: if_splits option.splits)

lemma invariant_ids: "invariant s = (ids_unique s \<and> invariant (s\<lparr>teamData := []\<rparr>))"
  by (auto simp: invariant_def ids_unique_def)

lemma ids_unique_post_team:
  "ids_unique s \<Longrightarrow> ids_unique (snd (post_team U clk nm descr adminName s))"
  by (auto simp: post_team_def Let_def ids_unique_def split: if_splits option.splits
           dest!: find_team_None)

lemma ids_unique_put_team:
  "ids_unique s \<Longrightarrow> ids_unique (snd (put_team clk i nm descr adminName s))"
  by (simp add: ids_unique_def put_team_ids)

lemma ids_unique_delete_team:
  "ids_unique s \<Longrightarrow> ids_unique (snd (delete_team clk i adminName s))"
proof -
  assume u: "ids_unique s"
  have "distinct (map m_id (take idx (teamData s) @ drop (Suc idx) (teamData s)))" for idx
    using distinct_take_drop[OF u[unfolded ids_unique_def], of idx]
    by (simp add: take_map drop_map)
  then show ?thesis using u
    by (auto simp: delete_team_def Let_def ids_unique_def split: if_splits option.splits)
qed

text \<open>
  C8 as stated fails: \<^verbatim>\<open>PUT /team/:id\<close> changes the name of a member and keeps its id.
  After \<^verbatim>\<open>PUT /team/esther?name=Maria\<close> on the start-up roster the member with id
  \<^verbatim>\<open>esther\<close> is named \<^verbatim>\<open>Maria\<close>, whose derivation is \<^verbatim>\<open>maria\<close>.
\<close>

theorem roster_counterexample:
  "reachable ascii (snd (put_team clock1 (js ''esther'') (Some (js ''Maria'')) None None
                      (init_state clock1 None)))
   \<and> \<not> ids_derived ascii (snd (put_team clock1 (js ''esther'') (Some (js ''Maria'')) None None
                      (init_state clock1 None)))"
proof
  have "step ascii clock1 (PutTeam (js ''esther'') (Some (js ''Maria'')) None None)
          (init_state clock1 None)
        = Done (fst (put_team clock1 (js ''esther'') (Some (js ''Maria'')) None None
                      (init_state clock1 None)))
               (snd (put_team clock1 (js ''esther'') (Some (js ''Maria'')) None None
                      (init_state clock1 None)))"
    by (simp add: finished_def)
  from reachable.after[OF reachable_init clock_ok_examples(1) this]
  show "reachable ascii (snd (put_team clock1 (js ''esther'') (Some (js ''Maria'')) None None
                      (init_state clock1 None)))" .
  show "\<not> ids_derived ascii (snd (put_team clock1 (js ''esther'') (Some (js ''Maria'')) None None
                      (init_state clock1 None)))"
    by (simp add: ids_derived_def put_team_def route_id_def is_word_def Let_def addLog_def
          team_id_def ascii_def ascii_lower_def is_space_def is_combining_def example_defs)
qed

text \<open>
  C8, amended. In every reachable state the ids of the roster are unique, and create,
  update and delete each keep them unique. Create gives the new member the id derived
  from its name. Update never changes an id: the list of ids is the same before and
  after, whatever the new name.
\<close>

theorem roster_ids_unique:
  "(reachable U s \<longrightarrow> ids_unique s)
   \<and> (ids_unique s \<longrightarrow>
        ids_unique (snd (post_team U clk nm descr adminName s))
        \<and> ids_unique (snd (put_team clk i nm descr adminName s))
        \<and> ids_unique (snd (delete_team clk i adminName s)))
   \<and> (\<forall>s'. post_team U clk nm descr adminName s = (OK, s') \<longrightarrow>
         teamData s' = teamData s @
           [\<lparr>m_id = team_id U (the nm), m_name = the nm,
             description = (if truthy descr then the descr else [])\<rparr>])
   \<and> map m_id (teamData (snd (put_team clk i nm descr adminName s))) = map m_id (teamData s)"
  using reachable_invariant[of U s] invariantD(5)[of s]
  by (auto simp: ids_unique_def[of s] put_team_ids ids_unique_post_team ids_unique_put_team
        ids_unique_delete_team dest: post_team_result)

theorem roster_ids_unique_witness:
  "reachable ascii (init_state clock1 None) \<and> ids_unique (init_state clock1 None)
   \<and> post_team ascii clock1 (Some (js ''Ana Maria'')) None None (init_state clock1 None)
       = (OK, snd (post_team ascii clock1 (Some (js ''Ana Maria'')) None None (init_state clock1 None)))
   \<and> map m_id (teamData (snd (post_team ascii clock1 (Some (js ''Ana Maria'')) None None
                                  (init_state clock1 None))))
       = [js ''esther'', js ''evelyn'', js ''lia'', js ''anamaria'']
   \<and> ids_unique (snd (post_team ascii clock1 (Some (js ''Ana Maria'')) None None
                         (init_state clock1 None)))"
proof -
  have p: "post_team ascii clock1 (Some (js ''Ana Maria'')) None None (init_state clock1 None)
       = (OK, snd (post_team ascii clock1 (Some (js ''Ana Maria'')) None None (init_state clock1 None)))"
    by (simp add: post_team_def team_id_def ascii_def ascii_lower_def is_space_def
          is_combining_def Let_def example_defs)
  have t: "team_id ascii (the (Some (js ''Ana Maria''))) = js ''anamaria''"
    by (simp add: team_id_def ascii_def ascii_lower_def is_space_def is_combining_def js_def)
  have i: "map m_id (teamData (init_state clock1 None)) = [js ''esther'', js ''evelyn'', js ''lia'']"
    by (simp add: init_state_def)
  show ?thesis
    using reachable_init p t i
      roster_ids_unique [of ascii "init_state clock1 None" clock1 "Some (js ''Ana Maria'')" None None
        "js ''esther''"]
    by auto
qed


subsection \<open>The audit log\<close>

text \<open>
  C5 as stated fails: the route compares the actor with the literal \<^verbatim>\<open>'esther'\<close> and
  never reads the credentials. With a credentials file whose master account is
  \<^verbatim>\<open>Maria\<close>, the master is refused and \<^verbatim>\<open>Esther\<close> is let through.
\<close>

theorem delete_logs_counterexample:
  "master_names (init_state clock1
      (Some [\<lparr>name = js ''Maria'', password = js ''segredo'', isMaster = True\<rparr>])) = [js ''Maria'']
   \<and> fst (delete_logs ascii clock1 (Some (js ''Maria'')) (init_state clock1
      (Some [\<lparr>name = js ''Maria'', password = js ''segredo'', isMaster = True\<rparr>]))) = Forbidden
   \<and> fst (delete_logs ascii clock1 (Some (js ''Esther'')) (init_state clock1
      (Some [\<lparr>name = js ''Maria'', password = js ''segredo'', isMaster = True\<rparr>]))) = OK"
  by (simp add: master_names_def delete_logs_def string_defs example_defs)

text \<open>
  C5, amended. Clearing the log is refused (403, state unchanged) for every actor that is
  absent, empty, or whose lower-cased name is not \<^verbatim>\<open>esther\<close>, the name of the default
  master account, whatever the stored credentials are. Otherwise the log afterwards holds
  exactly one entry, the \<^verbatim>\<open>clearLogs\<close> action of that actor, and nothing else changes.
\<close>

theorem delete_logs_esther_only:
  "(\<not> truthy adminName \<or> toLowerCase U (the adminName) \<noteq> js ''esther''
      \<longrightarrow> delete_logs U clk adminName s = (Forbidden, s))
   \<and> (truthy adminName \<and> toLowerCase U (the adminName) = js ''esther''
      \<longrightarrow> fst (delete_logs U clk adminName s) = OK
          \<and> logs (snd (delete_logs U clk adminName s))
              = [\<lparr>timestamp = isoString clk, admin = the adminName,
                  action = ''clearLogs'', details = NoDetails\<rparr>]
          \<and> length (get_logs (snd (delete_logs U clk adminName s))) = 1
          \<and> (snd (delete_logs U clk adminName s))\<lparr>logs := logs s\<rparr> = s)"
  by (auto simp: delete_logs_def addLog_def get_logs_def)

theorem delete_logs_esther_only_witness:
  "truthy (Some (js ''ESTHER'')) \<and> toLowerCase ascii (the (Some (js ''ESTHER''))) = js ''esther''
   \<and> fst (delete_logs ascii clock2 (Some (js ''ESTHER'')) two_contributors) = OK
   \<and> length (get_logs two_contributors) = 2
   \<and> length (get_logs (snd (delete_logs ascii clock2 (Some (js ''ESTHER'')) two_contributors))) = 1
   \<and> \<not> truthy None
   \<and> delete_logs ascii clock2 None two_contributors = (Forbidden, two_contributors)"
proof -
  have h1: "truthy (Some (js ''ESTHER''))" by (simp add: js_def)
  have h2: "toLowerCase ascii (the (Some (js ''ESTHER''))) = js ''esther''"
    by (simp add: ascii_def ascii_lower_def js_def)
  have h3: "length (get_logs two_contributors) = 2"
    by (simp add: two_contributors_def get_logs_def finished_def route_defs example_defs)
  show ?thesis
    using h1 h2 h3
      delete_logs_esther_only [of "Some (js ''ESTHER'')" ascii clock2 two_contributors]
      delete_logs_esther_only [of None ascii clock2 two_contributors]
    by simp
qed

subsection \<open>Login\<close>

lemma findCredential_first:
  "i < length cs \<Longrightarrow> login_match U nm (cs ! i) \<Longrightarrow> \<forall>j<i. \<not> login_match U nm (cs ! j) \<Longrightarrow>
     findCredential U (normalized U nm) cs = Some (cs ! i)"
proof (induction cs arbitrary: i)
  case Nil
  then show ?case by simp
next
  case (Cons c cs)
  show ?case
  proof (cases i)
    case 0
    with Cons.prems(2) show ?thesis by (simp add: login_match_def Let_def)
  next
    case (Suc k)
    with Cons.prems(3) have c: "\<not> login_match U nm c" by auto
    from Suc Cons.prems have "k < length cs" "login_match U nm (cs ! k)"
      "\<forall>j<k. \<not> login_match U nm (cs ! j)" by auto
    from Cons.IH[OF this] c Suc show ?thesis by (simp add: login_match_def Let_def)
  qed
qed

lemma findCredential_none:
  "\<forall>c\<in>set cs. \<not> login_match U nm c \<Longrightarrow> findCredential U (normalized U nm) cs = None"
  by (induction cs) (auto simp: login_match_def Let_def)

text \<open>
  C9 as stated fails: \<^verbatim>\<open>Ester\<close> can register next to the default account
  \<^verbatim>\<open>Esther\<close> (their normal forms differ), but the login loop stops at the first
  credential that matches once \<^verbatim>\<open>h\<close> is dropped, which is \<^verbatim>\<open>Esther\<close>. Login as
  \<^verbatim>\<open>Ester\<close> with the exact password of \<^verbatim>\<open>Ester\<close> is refused. And a wrong
  password that is empty is answered 400 (required fields), not 401.
\<close>

theorem handleLogin_counterexample:
  "fst (handleRegister ascii clock1 (Some (js ''Ester'')) (Some (js ''abc''))
          (init_state clock1 None)) = Created
   \<and> credentials (snd (handleRegister ascii clock1 (Some (js ''Ester'')) (Some (js ''abc''))
          (init_state clock1 None)))
      = [\<lparr>name = js ''Esther'', password = js ''1705'', isMaster = True\<rparr>,
         \<lparr>name = js ''Ester'', password = js ''abc'', isMaster = False\<rparr>]
   \<and> fst (handleLogin ascii clock2 (Some (js ''Ester'')) (Some (js ''abc''))
            (snd (handleRegister ascii clock1 (Some (js ''Ester'')) (Some (js ''abc''))
               (init_state clock1 None)))) = Unauthorized
   \<and> fst (handleLogin ascii clock2 (Some (js ''Esther'')) (Some [])
            (init_state clock1 None)) = BadRequest"
  by (simp add: handleRegister_def handleLogin_def addLog_def Let_def string_defs example_defs)

lemma findCredential_Some:
  "findCredential U (normalized U nm) cs = Some c \<Longrightarrow> c \<in> set cs \<and> login_match U nm c"
  by (induction cs) (auto simp: login_match_def Let_def split: if_splits)

text \<open>
  C9, amended. With a non-empty name and password: login succeeds, as that credential,
  with the exact password of every stored credential that matches the name under the
  rule and has no matching credential before it. Login is refused (401) when the
  password differs from the password of every matching credential, so also when no
  credential matches. An absent or empty name or password is answered 400.
\<close>

theorem handleLogin_first_match:
  "(truthy nm \<and> truthy pw \<and> i < length (credentials s)
      \<and> login_match U (the nm) (credentials s ! i)
      \<and> (\<forall>j<i. \<not> login_match U (the nm) (credentials s ! j))
      \<and> password (credentials s ! i) = the pw \<longrightarrow>
        handleLogin U clk nm pw s
          = (OKLogin (name (credentials s ! i)) (isMaster (credentials s ! i)),
             addLog clk nm ''login'' NoDetails s))
   \<and> (truthy nm \<and> truthy pw
      \<and> (\<forall>c\<in>set (credentials s). login_match U (the nm) c \<longrightarrow> password c \<noteq> the pw) \<longrightarrow>
        handleLogin U clk nm pw s = (Unauthorized, s))
   \<and> (\<not> truthy nm \<or> \<not> truthy pw \<longrightarrow> handleLogin U clk nm pw s = (BadRequest, s))"
proof (intro conjI impI)
  assume a: "truthy nm \<and> truthy pw \<and> i < length (credentials s)
      \<and> login_match U (the nm) (credentials s ! i)
      \<and> (\<forall>j<i. \<not> login_match U (the nm) (credentials s ! j))
      \<and> password (credentials s ! i) = the pw"
  then have "findCredential U (normalized U (the nm)) (credentials s) = Some (credentials s ! i)"
    by (intro findCredential_first) auto
  with a show "handleLogin U clk nm pw s
          = (OKLogin (name (credentials s ! i)) (isMaster (credentials s ! i)),
             addLog clk nm ''login'' NoDetails s)"
    by (simp add: handleLogin_def)
next
  assume a: "truthy nm \<and> truthy pw
      \<and> (\<forall>c\<in>set (credentials s). login_match U (the nm) c \<longrightarrow> password c \<noteq> the pw)"
  show "handleLogin U clk nm pw s = (Unauthorized, s)"
  proof (cases "findCredential U (normalized U (the nm)) (credentials s)")
    case None
    with a show ?thesis by (simp add: handleLogin_def)
  next
    case (Some c)
    from findCredential_Some[OF Some] a have "password c \<noteq> the pw" by blast
    with a Some show ?thesis by (simp add: handleLogin_def)
  qed
next
  assume "\<not> truthy nm \<or> \<not> truthy pw"
  then show "handleLogin U clk nm pw s = (BadRequest, s)"
    by (auto simp: handleLogin_def)
qed

theorem handleLogin_first_match_witness:
  "truthy (Some (js ''Ester'')) \<and> truthy (Some (js ''1705''))
   \<and> (0::nat) < length (credentials (init_state clock1 None))
   \<and> login_match ascii (the (Some (js ''Ester''))) (credentials (init_state clock1 None) ! 0)
   \<and> password (credentials (init_state clock1 None) ! 0) = the (Some (js ''1705''))
   \<and> fst (handleLogin ascii clock1 (Some (js ''Ester'')) (Some (js ''1705''))
            (init_state clock1 None)) = OKLogin (js ''Esther'') True
   \<and> handleLogin ascii clock1 (Some (js ''Ester'')) (Some (js ''0000'')) (init_state clock1 None)
       = (Unauthorized, init_state clock1 None)
   \<and> handleLogin ascii clock1 (Some (js ''Lia'')) (Some (js ''1705'')) (init_state clock1 None)
       = (Unauthorized, init_state clock1 None)
   \<and> handleLogin ascii clock1 (Some (js ''Ester'')) None (init_state clock1 None)
       = (BadRequest, init_state clock1 None)"
proof -
  have h1: "truthy (Some (js ''Ester'')) \<and> truthy (Some (js ''1705''))
            \<and> truthy (Some (js ''0000'')) \<and> truthy (Some (js ''Lia''))"
    by (simp add: js_def)
  have h2: "(0::nat) < length (credentials (init_state clock1 None))"
    by (simp add: example_defs)
  have h3: "login_match ascii (the (Some (js ''Ester''))) (credentials (init_state clock1 None) ! 0)"
    by (simp add: login_match_def string_defs example_defs)
  have h4: "\<forall>c\<in>set (credentials (init_state clock1 None)).
              login_match ascii (the (Some (js ''Lia''))) c \<longrightarrow> password c \<noteq> the (Some (js ''1705''))"
    by (simp add: login_match_def string_defs example_defs)
  have h5: "credentials (init_state clock1 None) ! 0
            = \<lparr>name = js ''Esther'', password = js ''1705'', isMaster = True\<rparr>"
    by (simp add: init_state_def loadCredentials_def)
  have h6: "\<forall>c\<in>set (credentials (init_state clock1 None)).
              login_match ascii (the (Some (js ''Ester''))) c \<longrightarrow> password c \<noteq> the (Some (js ''0000''))"
    by (simp add: example_defs)
  show ?thesis
    using h1 h2 h3 h4 h5 h6
      handleLogin_first_match [of "Some (js ''Ester'')" "Some (js ''1705'')" 0
        "init_state clock1 None" ascii clock1]
      handleLogin_first_match [of "Some (js ''Ester'')" "Some (js ''0000'')" 0
        "init_state clock1 None" ascii clock1]
      handleLogin_first_match [of "Some (js ''Lia'')" "Some (js ''1705'')" 0
        "init_state clock1 None" ascii clock1]
      handleLogin_first_match [of "Some (js ''Ester'')" None 0
        "init_state clock1 None" ascii clock1]
    by simp
qed


subsection \<open>The example states\<close>

lemma two_contributors_eq:
  "two_contributors =
     \<lparr>chartData = \<lparr>labels = [js ''05/01/2026 10:00:00'', js ''06/01/2026 11:30:00''],
                   vals = [Num (Finite 50), Num (Finite 30)]\<rparr>,
      userData =
        [(Ana, \<lparr>labels = [js ''05/01/2026 10:00:00''], vals = [Num (Finite 50)],
                entries = Some [\<lparr>e_time = js ''05/01/2026 10:00:00'',
                                 e_value = Num (Finite 50), totalIndex = 0\<rparr>]\<rparr>),
         (Bia, \<lparr>labels = [js ''06/01/2026 11:30:00''], vals = [Num (Finite 30)],
                entries = Some [\<lparr>e_time = js ''06/01/2026 11:30:00'',
                                 e_value = Num (Finite 30), totalIndex = 1\<rparr>]\<rparr>)],
      protoReplaced = False,
      logs = [\<lparr>timestamp = isoString clock1, admin = js ''unknown'', action = ''deposit'',
               details = DepositDetails Ana (Finite 50) (js ''05/01/2026 10:00:00'')\<rparr>,
              \<lparr>timestamp = isoString clock2, admin = js ''unknown'', action = ''deposit'',
               details = DepositDetails Bia (Finite 30) (js ''06/01/2026 11:30:00'')\<rparr>],
      monthlyHistory = [],
      currentMonth = js ''2026-01'',
      credentials = loadCredentials None,
      teamData = teamData (init_state clock1 None)\<rparr>"
  by (simp add: two_contributors_def route_defs example_defs)

lemma same_id_contributors_eq:
  "same_id_contributors =
     \<lparr>chartData = \<lparr>labels = [js ''05/01/2026 10:00:00'', js ''06/01/2026 11:30:00''],
                   vals = [Num (Finite 50), Num (Finite 30)]\<rparr>,
      userData =
        [(js ''Ana'', \<lparr>labels = [js ''05/01/2026 10:00:00''], vals = [Num (Finite 50)],
                entries = Some [\<lparr>e_time = js ''05/01/2026 10:00:00'',
                                 e_value = Num (Finite 50), totalIndex = 0\<rparr>]\<rparr>),
         (js ''ana'', \<lparr>labels = [js ''06/01/2026 11:30:00''], vals = [Num (Finite 30)],
                entries = Some [\<lparr>e_time = js ''06/01/2026 11:30:00'',
                                 e_value = Num (Finite 30), totalIndex = 1\<rparr>]\<rparr>)],
      protoReplaced = False,
      logs = [\<lparr>timestamp = isoString clock1, admin = js ''unknown'', action = ''deposit'',
               details = DepositDetails (js ''Ana'') (Finite 50) (js ''05/01/2026 10:00:00'')\<rparr>,
              \<lparr>timestamp = isoString clock2, admin = js ''unknown'', action = ''deposit'',
               details = DepositDetails (js ''ana'') (Finite 30) (js ''06/01/2026 11:30:00'')\<rparr>],
      monthlyHistory = [],
      currentMonth = js ''2026-01'',
      credentials = loadCredentials None,
      teamData = teamData (init_state clock1 None)\<rparr>"
  by (simp add: same_id_contributors_def route_defs example_defs)

lemma reachable_two_contributors: "reachable ascii two_contributors"
proof -
  have "run ascii [(clock1, Add (Finite 50) (Some Ana) None),
                   (clock2, Add (Finite 30) (Some Bia) None)] (init_state clock1 None)
        = Some two_contributors"
    by (simp add: two_contributors_def route_defs example_defs)
  from run_reachable[OF reachable_init _ this] clock_ok_examples show ?thesis by simp
qed

lemma reachable_same_id_contributors: "reachable ascii same_id_contributors"
proof -
  have "run ascii [(clock1, Add (Finite 50) (Some (js ''Ana'')) None),
                   (clock2, Add (Finite 30) (Some (js ''ana'')) None)] (init_state clock1 None)
        = Some same_id_contributors"
    by (simp add: same_id_contributors_def route_defs example_defs)
  from run_reachable[OF reachable_init _ this] clock_ok_examples show ?thesis by simp
qed

lemmas users_defs =
  find_key_def object_keys_def array_index_def decimal_def sanitizeName_def route_id_def
  get_participants_def user_vals_def user_labels_def user_entries_def

subsection \<open>Renaming and deleting a contributor\<close>

text \<open>
  C4 at a failing input. \<^verbatim>\<open>PUT /users/ana?newName=Bia\<close>, with contributors
  \<^verbatim>\<open>Ana\<close> and \<^verbatim>\<open>Bia\<close> present: the route has no check for an existing key. It
  answers 200, the series of \<^verbatim>\<open>Bia\<close> is overwritten by the labels and values of
  \<^verbatim>\<open>Ana\<close>, and one contributor is left.
\<close>

theorem put_users_overwrites:
  "reachable ascii two_contributors
   \<and> user_vals Ana two_contributors = Some [Num (Finite 50)]
   \<and> user_vals Bia two_contributors = Some [Num (Finite 30)]
   \<and> sanitizeName ascii Bia = js ''bia''
   \<and> map p_id (get_participants ascii two_contributors) = [js ''ana'', js ''bia'']
   \<and> fst (put_users ascii clock2 (js ''ana'') None (Some Bia) two_contributors) = OK
   \<and> user_vals Bia (snd (put_users ascii clock2 (js ''ana'') None (Some Bia) two_contributors))
       = Some [Num (Finite 50)]
   \<and> map p_name (get_participants ascii
         (snd (put_users ascii clock2 (js ''ana'') None (Some Bia) two_contributors))) = [Bia]"
  using reachable_two_contributors
  by (simp add: two_contributors_eq put_users_def users_defs string_defs route_defs example_defs)



lemma object_keys_filter:
  "object_keys (filter (\<lambda>kv. fst kv \<noteq> x) kvs) = filter (\<lambda>y. y \<noteq> x) (object_keys kvs)"
proof -
  have m: "map fst (filter (\<lambda>kv. fst kv \<noteq> x) kvs) = filter (\<lambda>y. y \<noteq> x) (map fst kvs)"
    by (simp add: filter_map comp_def)
  have s: "sort_key f (filter (\<lambda>k. P k) (filter (\<lambda>y. y \<noteq> x) ks))
           = filter (\<lambda>y. y \<noteq> x) (sort_key f (filter (\<lambda>k. P k) ks))"
    for f :: "jsstring \<Rightarrow> nat" and P ks
    by (simp add: filter_sort conj_commute)
  show ?thesis
    unfolding object_keys_def Let_def m s filter_append
    by (simp add: conj_commute)
qed

lemma map_of_filter_other:
  "y \<noteq> x \<Longrightarrow> map_of (filter (\<lambda>kv. fst kv \<noteq> x) kvs) y = map_of kvs y"
  by (induction kvs) auto

lemma participants_names: "map p_name (get_participants U s) = object_keys (userData s)"
  by (simp add: get_participants_def comp_def Let_def)

lemma delete_users_chartData:
  "chartData (snd (delete_users U clk i adminName s)) = chartData s"
  by (simp add: delete_users_def deleteProp_def split: option.splits)

lemma delete_users_first_key:
  assumes r: "reachable U s" and f: "find_key U (sanitizeName U x) s = Some x"
    and rt: "route_id (sanitizeName U x)"
  shows "\<exists>s'. delete_users U clk (sanitizeName U x) adminName s = (OK, s')
           \<and> x \<in> set (map p_name (get_participants U s))
           \<and> x \<notin> set (map p_name (get_participants U s'))
           \<and> map p_name (get_participants U s')
               = filter (\<lambda>y. y \<noteq> x) (map p_name (get_participants U s))
           \<and> chartData s' = chartData s
           \<and> (\<forall>y. y \<noteq> x \<longrightarrow> map_of (userData s') y = map_of (userData s) y)"
proof -
  from f have mem: "x \<in> set (object_keys (userData s))"
    by (auto simp: find_key_def dest: find_Some_mem)
  then obtain d where "(x, d) \<in> set (userData s)"
    by (auto simp: set_object_keys)
  with invariantD(3)[OF reachable_invariant[OF r]] have "user_ok (length (labels (chartData s))) (x, d)"
    by (auto simp: list_all_iff)
  then have x: "x \<noteq> []" by (simp add: user_ok_def)
  have d: "delete_users U clk (sanitizeName U x) adminName s
           = (OK, addLog clk adminName ''userDelete'' (UserDeleteDetails (sanitizeName U x) x)
                    (deleteProp x s))"
    using f rt x by (simp add: delete_users_def)
  show ?thesis unfolding d using mem
    by (simp add: participants_names deleteProp_def object_keys_filter map_of_filter_other)
qed

text \<open>
  C7 as stated fails: the route finds the contributor by the sanitized id, and takes the
  first key with that id. With contributors \<^verbatim>\<open>Ana\<close> and \<^verbatim>\<open>ana\<close>, deleting
  \<^verbatim>\<open>ana\<close> (id \<^verbatim>\<open>ana\<close>) removes \<^verbatim>\<open>Ana\<close>, and \<^verbatim>\<open>ana\<close> is still listed.
  A contributor named \<^verbatim>\<open>!!!\<close> has the empty id, which the pattern of the route
  refuses: the request goes to the static files and the contributor stays.
\<close>

theorem delete_users_counterexample:
  "reachable ascii same_id_contributors
   \<and> map p_name (get_participants ascii same_id_contributors) = [js ''Ana'', js ''ana'']
   \<and> sanitizeName ascii (js ''ana'') = js ''ana''
   \<and> fst (delete_users ascii clock2 (js ''ana'') None same_id_contributors) = OK
   \<and> map p_name (get_participants ascii
         (snd (delete_users ascii clock2 (js ''ana'') None same_id_contributors))) = [js ''ana'']
   \<and> map_option (map p_name \<circ> get_participants ascii)
         (state_after (add_value clock1 (Finite 5) (Some (js ''!!!'')) None (init_state clock1 None)))
       = Some [js ''!!!'']
   \<and> sanitizeName ascii (js ''!!!'') = []
   \<and> fst (delete_users ascii clock2 [] None
         (the (state_after (add_value clock1 (Finite 5) (Some (js ''!!!'')) None
                 (init_state clock1 None))))) = StaticFile
   \<and> map p_name (get_participants ascii (snd (delete_users ascii clock2 [] None
         (the (state_after (add_value clock1 (Finite 5) (Some (js ''!!!'')) None
                 (init_state clock1 None))))))) = [js ''!!!'']"
  using reachable_same_id_contributors
  by (simp add: same_id_contributors_eq delete_users_def users_defs string_defs route_defs
        example_defs)

text \<open>
  C7, amended. In a reachable state, for a contributor \<open>x\<close> whose sanitized id is
  accepted by the route (it is not empty) and who is the first contributor, in the order
  of \<^verbatim>\<open>Object.keys\<close>, with that id (so whenever no other contributor has the id), the
  delete by that id answers 200, removes \<open>x\<close> and only \<open>x\<close> from the participants, and
  leaves the aggregate series and every other contributor's series unchanged. The
  aggregate series is unchanged by every delete request.
\<close>

theorem delete_users_removes_first_key:
  "(reachable U s \<and> find_key U (sanitizeName U x) s = Some x \<and> route_id (sanitizeName U x) \<longrightarrow>
      (\<exists>s'. delete_users U clk (sanitizeName U x) adminName s = (OK, s')
           \<and> x \<in> set (map p_name (get_participants U s))
           \<and> x \<notin> set (map p_name (get_participants U s'))
           \<and> map p_name (get_participants U s')
               = filter (\<lambda>y. y \<noteq> x) (map p_name (get_participants U s))
           \<and> chartData s' = chartData s
           \<and> (\<forall>y. y \<noteq> x \<longrightarrow> map_of (userData s') y = map_of (userData s) y)))
   \<and> chartData (snd (delete_users U clk i adminName s)) = chartData s"
  using delete_users_first_key[of U s x clk adminName] delete_users_chartData[of U clk i adminName s]
  by blast

theorem delete_users_removes_first_key_witness:
  "reachable ascii two_contributors
   \<and> find_key ascii (sanitizeName ascii Bia) two_contributors = Some Bia
   \<and> route_id (sanitizeName ascii Bia)
   \<and> fst (delete_users ascii clock2 (sanitizeName ascii Bia) None two_contributors) = OK
   \<and> map p_name (get_participants ascii two_contributors) = [Ana, Bia]
   \<and> map p_name (get_participants ascii
         (snd (delete_users ascii clock2 (sanitizeName ascii Bia) None two_contributors))) = [Ana]
   \<and> chartData (snd (delete_users ascii clock2 (sanitizeName ascii Bia) None two_contributors))
       = chartData two_contributors"
proof -
  have h2: "find_key ascii (sanitizeName ascii Bia) two_contributors = Some Bia"
    by (simp add: two_contributors_eq users_defs string_defs example_defs)
  have h3: "route_id (sanitizeName ascii Bia)"
    by (simp add: users_defs string_defs example_defs)
  have h4: "map p_name (get_participants ascii two_contributors) = [Ana, Bia]"
    by (simp add: two_contributors_eq users_defs string_defs example_defs)
  have h5: "filter (\<lambda>y. y \<noteq> Bia) [Ana, Bia] = [Ana]"
    by (simp add: example_defs)
  from delete_users_removes_first_key [of ascii two_contributors Bia clock2 None "sanitizeName ascii Bia"]
    reachable_two_contributors h2 h3
  obtain s' where
    "delete_users ascii clock2 (sanitizeName ascii Bia) None two_contributors = (OK, s')"
    "map p_name (get_participants ascii s')
       = filter (\<lambda>y. y \<noteq> Bia) (map p_name (get_participants ascii two_contributors))"
    "chartData s' = chartData two_contributors"
    by blast
  then show ?thesis
    using reachable_two_contributors h2 h3 h4 h5 by simp
qed


subsection \<open>Editing the time of an entry\<close>

lemma getProp_map_of: "map_of (userData s) k = Some d \<Longrightarrow> getProp s k = Own d"
  by (simp add: getProp_def)

lemma map_of_upsert_other: "y \<noteq> k \<Longrightarrow> map_of (upsert k v kvs) y = map_of kvs y"
  by (simp add: map_of_upsert)

lemma user_entries_map_of:
  "user_entries c s = (case map_of (userData s) c of None \<Rightarrow> None | Some d \<Rightarrow> entries d)"
  by (auto simp: user_entries_def getProp_def split: option.splits)

lemma put_entry_edits:
  assumes r: "reachable U s" and c: "map_of (userData s) c = Some d"
    and e: "entries d = Some es" and i: "i < length es" and t: "t \<noteq> []"
  shows "\<exists>s'. put_entry clk (Some c) (Index (int i)) (Some t) adminName s = (OK, s')
           \<and> i < length (labels d)
           \<and> user_labels c s' = Some ((labels d)[i := t])
           \<and> user_entries c s' = Some (es[i := (es ! i)\<lparr>e_time := t\<rparr>])
           \<and> user_vals c s' = Some (vals d)
           \<and> totalIndex (es ! i) < length (labels (chartData s))
           \<and> labels (chartData s') = (labels (chartData s))[totalIndex (es ! i) := t]
           \<and> vals (chartData s') = vals (chartData s)
           \<and> (\<forall>c'. c' \<noteq> c \<longrightarrow> map_of (userData s') c' = map_of (userData s) c')"
proof -
  from c have mem: "(c, d) \<in> set (userData s)" by (rule map_of_SomeD)
  with invariantD(3)[OF reachable_invariant[OF r]]
  have ok: "user_ok (length (labels (chartData s))) (c, d)" by (auto simp: list_all_iff)
  from ok e have cn: "c \<noteq> []" and len: "length es = length (labels d)"
    and ne: "\<forall>l\<in>set (labels d). l \<noteq> []"
    and ti: "\<forall>en\<in>set es. totalIndex en < length (labels (chartData s))"
    by (auto simp: user_ok_def list_all_iff)
  from i len have il: "i < length (labels d)" by simp
  with ne have li: "labels d ! i \<noteq> []" by auto
  from ti i have tii: "totalIndex (es ! i) < length (labels (chartData s))" by auto
  have p: "put_entry clk (Some c) (Index (int i)) (Some t) adminName s =
    (OK, addLog clk adminName ''editEntryTime''
           (EditEntryDetails c (int i) (e_time (es ! i)) t)
           (s\<lparr>userData := upsert c
                 (d\<lparr>labels := (labels d)[i := t],
                    entries := Some (es[i := (es ! i)\<lparr>e_time := t\<rparr>])\<rparr>)
                 (userData s),
              chartData := (chartData s)\<lparr>labels :=
                 (labels (chartData s))[totalIndex (es ! i) := t]\<rparr>\<rparr>))"
    using put_entry_found[of "Some c" "Some t" s d es "int i" clk adminName]
      getProp_map_of[OF c] e i cn t il li tii
    by simp
  show ?thesis unfolding p using il tii
    by (simp add: user_labels_def user_vals_def user_entries_map_of map_of_upsert)
qed


text \<open>
  C3 as stated fails for the empty timestamp: \<^verbatim>\<open>PUT /entry?user=Ana&index=0&newTime=\<close>
  is answered 400 by the guard \<^verbatim>\<open>!newTime\<close>, and no label is set.
\<close>

theorem put_entry_counterexample:
  "reachable ascii two_contributors
   \<and> map_option length (user_entries Ana two_contributors) = Some 1
   \<and> user_labels Ana two_contributors = Some [js ''05/01/2026 10:00:00'']
   \<and> put_entry clock2 (Some Ana) (Index 0) (Some []) None two_contributors
       = (BadRequest, two_contributors)"
  using reachable_two_contributors
  by (simp add: two_contributors_eq put_entry_def users_defs route_defs example_defs)

text \<open>
  C3, amended. In a reachable state, for a contributor \<open>c\<close> with an entry at index
  \<open>i\<close> and a non-empty \<open>t\<close>, the edit answers 200 and sets to \<open>t\<close> the
  contributor's label \<open>i\<close>, the time of entry \<open>i\<close>, and the aggregate label at
  \<open>totalIndex\<close> of that entry (both indices are in range). Every other label and
  entry, the values of both series and every other contributor are unchanged. An empty
  \<open>t\<close> is answered 400, for every contributor and index, and the state is unchanged.
\<close>

theorem put_entry_sets_time:
  "(reachable U s \<and> map_of (userData s) c = Some d \<and> entries d = Some es \<and> i < length es
     \<and> t \<noteq> [] \<longrightarrow>
     (\<exists>s'. put_entry clk (Some c) (Index (int i)) (Some t) adminName s = (OK, s')
           \<and> i < length (labels d)
           \<and> user_labels c s' = Some ((labels d)[i := t])
           \<and> user_entries c s' = Some (es[i := (es ! i)\<lparr>e_time := t\<rparr>])
           \<and> user_vals c s' = Some (vals d)
           \<and> totalIndex (es ! i) < length (labels (chartData s))
           \<and> labels (chartData s') = (labels (chartData s))[totalIndex (es ! i) := t]
           \<and> vals (chartData s') = vals (chartData s)
           \<and> (\<forall>c'. c' \<noteq> c \<longrightarrow> map_of (userData s') c' = map_of (userData s) c')))
   \<and> put_entry clk userName index (Some []) adminName s = (BadRequest, s)"
proof
  show "put_entry clk userName index (Some []) adminName s = (BadRequest, s)"
    by (simp add: put_entry_def)
qed (use put_entry_edits[of U s c d es i t clk adminName] in blast)

theorem put_entry_sets_time_witness:
  "reachable ascii two_contributors
   \<and> map_of (userData two_contributors) Bia
       = Some \<lparr>labels = [js ''06/01/2026 11:30:00''], vals = [Num (Finite 30)],
               entries = Some [\<lparr>e_time = js ''06/01/2026 11:30:00'',
                                e_value = Num (Finite 30), totalIndex = 1\<rparr>]\<rparr>
   \<and> (\<exists>s'. put_entry clock2 (Some Bia) (Index (int 0)) (Some (js ''07/01/2026 09:00:00'')) None
              two_contributors = (OK, s')
        \<and> user_labels Bia s' = Some [js ''07/01/2026 09:00:00'']
        \<and> labels (chartData s') = [js ''05/01/2026 10:00:00'', js ''07/01/2026 09:00:00'']
        \<and> vals (chartData s') = [Num (Finite 50), Num (Finite 30)]
        \<and> map_of (userData s') Ana = map_of (userData two_contributors) Ana)
   \<and> put_entry clock2 (Some Bia) (Index 0) (Some []) None two_contributors
       = (BadRequest, two_contributors)"
proof -
  have h2: "map_of (userData two_contributors) Bia
       = Some \<lparr>labels = [js ''06/01/2026 11:30:00''], vals = [Num (Finite 30)],
               entries = Some [\<lparr>e_time = js ''06/01/2026 11:30:00'',
                                e_value = Num (Finite 30), totalIndex = 1\<rparr>]\<rparr>"
    by (simp add: two_contributors_eq example_defs)
  have h3: "(0::nat) < length [\<lparr>e_time = js ''06/01/2026 11:30:00'',
                                e_value = Num (Finite 30), totalIndex = 1\<rparr>]" by simp
  have h4: "js ''07/01/2026 09:00:00'' \<noteq> []" by (simp add: js_def)
  have h5: "Ana \<noteq> Bia" by (simp add: example_defs)
  have h6: "chartData two_contributors
            = \<lparr>labels = [js ''05/01/2026 10:00:00'', js ''06/01/2026 11:30:00''],
               vals = [Num (Finite 50), Num (Finite 30)]\<rparr>"
    by (simp add: two_contributors_eq)
  note a = put_entry_sets_time [where U = ascii and s = two_contributors and c = Bia
      and d = "\<lparr>labels = [js ''06/01/2026 11:30:00''], vals = [Num (Finite 30)],
               entries = Some [\<lparr>e_time = js ''06/01/2026 11:30:00'',
                                e_value = Num (Finite 30), totalIndex = 1\<rparr>]\<rparr>"
      and es = "[\<lparr>e_time = js ''06/01/2026 11:30:00'', e_value = Num (Finite 30),
                  totalIndex = 1\<rparr>]"
      and i = 0 and t = "js ''07/01/2026 09:00:00''" and clk = clock2 and adminName = None
      and userName = "Some Bia" and index = "Index 0"]
  from a have e: "put_entry clock2 (Some Bia) (Index 0) (Some []) None two_contributors
       = (BadRequest, two_contributors)" by blast
  from a reachable_two_contributors h2 h3 h4
  obtain s' where
    "put_entry clock2 (Some Bia) (Index (int 0)) (Some (js ''07/01/2026 09:00:00'')) None
              two_contributors = (OK, s')"
    "user_labels Bia s' = Some ([js ''06/01/2026 11:30:00''][0 := js ''07/01/2026 09:00:00''])"
    "labels (chartData s') = (labels (chartData two_contributors))[1 := js ''07/01/2026 09:00:00'']"
    "vals (chartData s') = vals (chartData two_contributors)"
    "\<forall>c'. c' \<noteq> Bia \<longrightarrow> map_of (userData s') c' = map_of (userData two_contributors) c'"
    by auto
  then show ?thesis
    using reachable_two_contributors h2 h5 h6 e by auto
qed


subsection \<open>Reset and restore of a period\<close>

lemma upsert_new: "k \<notin> fst ` set kvs \<Longrightarrow> upsert k v kvs = kvs @ [(k, v)]"
  by (induction kvs) auto

lemma foldl_restore_userData:
  assumes "distinct ks" "js ''__proto__'' \<notin> set ks" "set ks \<inter> fst ` set (userData s) = {}"
  shows "userData (foldl (restore_user us) s ks)
         = userData s @ map (\<lambda>k. (k, \<lparr>labels = labels (the (map_of us k)),
                                       vals = vals (the (map_of us k)), entries = None\<rparr>)) ks"
  using assms
proof (induction ks arbitrary: s)
  case Nil
  then show ?case by simp
next
  case (Cons k ks)
  let ?v = "\<lparr>labels = labels (the (map_of us k)), vals = vals (the (map_of us k)),
             entries = None\<rparr>"
  from Cons.prems have kp: "k \<noteq> js ''__proto__''" and kn: "k \<notin> fst ` set (userData s)"
    and kk: "k \<notin> set ks" by auto
  have r: "restore_user us s k = s\<lparr>userData := userData s @ [(k, ?v)]\<rparr>"
    using kp upsert_new[OF kn] by (simp add: restore_user_def setProp_def Let_def)
  have "set ks \<inter> fst ` set (userData (restore_user us s k)) = {}"
    unfolding r using Cons.prems kk by auto
  from Cons.IH[OF _ _ this] Cons.prems(1,2) show ?case
    unfolding r[symmetric] by (simp add: r)
qed

lemma sort_key_stable_id: "sorted (map f xs) \<Longrightarrow> sort_key f xs = xs"
  by (rule sort_key_id_if_sorted)

lemma object_keys_json_users: "object_keys (json_users kvs) = object_keys kvs"
proof -
  let ?I = "\<lambda>k::jsstring. array_index k \<noteq> None"
  let ?f = "\<lambda>k::jsstring. the (array_index k)"
  let ?ks = "map fst kvs"
  let ?a = "sort_key ?f (filter ?I ?ks)"
  let ?b = "filter (\<lambda>k. array_index k = None) ?ks"
  have m: "map fst (json_users kvs) = ?a @ ?b"
    by (simp add: json_users_def object_keys_def Let_def comp_def)
  have fa: "filter ?I (?a @ ?b) = ?a"
    by (auto simp: filter_sort[symmetric] filter_empty_conv)
  have fb: "filter (\<lambda>k. array_index k = None) (?a @ ?b) = ?b"
    by (auto simp: filter_sort[symmetric] filter_empty_conv)
  have "sort_key ?f ?a = ?a"
    by (rule sort_key_id_if_sorted) simp
  then show ?thesis
    unfolding object_keys_def[of "json_users kvs"] Let_def m fa fb
    by (simp add: object_keys_def Let_def)
qed

lemma map_of_json_users:
  "map_of kvs k = Some d \<Longrightarrow> map_of (json_users kvs) k = Some (json_user d)"
proof -
  assume d: "map_of kvs k = Some d"
  then have "k \<in> set (object_keys kvs)"
    by (auto simp: set_object_keys dest: map_of_SomeD intro: rev_image_eqI)
  then show ?thesis using d
    by (simp add: json_users_def map_of_map_restrict)
qed


lemma add_value_history:
  "add_value clk amount userName adminName s = Done r s' \<Longrightarrow> monthlyHistory s' = monthlyHistory s"
  by (auto simp: add_value_def Let_def setProp_def split: if_splits property.splits option.splits)

lemma team_history:
  "monthlyHistory (snd (post_team U clk nm descr adminName s)) = monthlyHistory s"
  "monthlyHistory (snd (put_team clk i nm descr adminName s)) = monthlyHistory s"
  "monthlyHistory (snd (delete_team clk i adminName s)) = monthlyHistory s"
  by (auto simp: post_team_def put_team_def delete_team_def Let_def split: option.splits)

lemma users_history:
  "monthlyHistory (snd (put_entry clk userName index newTime adminName s)) = monthlyHistory s"
  "monthlyHistory (snd (delete_users U clk i adminName s)) = monthlyHistory s"
  "monthlyHistory (snd (put_users U clk i adminName newName s)) = monthlyHistory s"
  by (auto simp: put_entry_def delete_users_def put_users_def deleteProp_def Let_def
           split: option.splits index_param.splits property.splits)

lemma restore_month_history:
  "monthlyHistory (snd (restore_month clk adminName mon s)) = monthlyHistory s"
  by (auto simp: restore_month_def Let_def split: option.splits)

lemma reset_month_history:
  "monthlyHistory (snd (reset_month clk adminName s)) = monthlyHistory s @
     [\<lparr>month = currentMonth s,
       chart = \<lparr>labels = labels (chartData s), vals = vals (chartData s)\<rparr>,
       users = json_users (userData s), team = teamData s\<rparr>]"
  by (simp add: reset_month_def Let_def)

lemma accounts_history:
  "monthlyHistory (snd (handleRegister U clk nm pw s)) = monthlyHistory s"
  "monthlyHistory (snd (handleLogin U clk nm pw s)) = monthlyHistory s"
  "monthlyHistory (snd (change_password U clk adminName newPassword s)) = monthlyHistory s"
  "monthlyHistory (snd (delete_logs U clk adminName s)) = monthlyHistory s"
  "monthlyHistory (snd (upload_hero clk adminName up s)) = monthlyHistory s"
  by (auto simp: handleRegister_def handleLogin_def change_password_def delete_logs_def
        upload_hero_def Let_def split: option.splits upload.splits)

lemma step_history:
  "step U clk req s = Done r s' \<Longrightarrow> \<exists>ext. monthlyHistory s' = monthlyHistory s @ ext"
  by (cases req)
     (auto simp: finished_def team_history users_history restore_month_history
        reset_month_history accounts_history dest: add_value_history)

lemma run_history:
  "run U reqs s = Some s' \<Longrightarrow> \<exists>ext. monthlyHistory s' = monthlyHistory s @ ext"
proof (induction reqs arbitrary: s)
  case Nil
  then show ?case by simp
next
  case (Cons cr reqs)
  obtain clk req where cr: "cr = (clk, req)" by (cases cr)
  from Cons.prems cr obtain r s1 where st: "step U clk req s = Done r s1"
    and rest: "run U reqs s1 = Some s'"
    by (auto split: outcome.splits)
  from step_history[OF st] Cons.IH[OF rest] show ?case by auto
qed

lemma find_first_fresh:
  "\<forall>h\<in>set hs. \<not> P h \<Longrightarrow> P x \<Longrightarrow> find P ((hs @ [x]) @ ext) = Some x"
  by (induction hs) auto

lemma restore_after_reset:
  assumes r: "reachable U s"
    and fresh: "\<forall>h\<in>set (monthlyHistory s). month h \<noteq> currentMonth s"
    and run: "run U reqs (snd (reset_month clk adminName s)) = Some s2"
  shows "\<exists>s3. restore_month clk' adminName' (Some (currentMonth s)) s2 = (OK, s3)
           \<and> labels (chartData s3) = labels (chartData s)
           \<and> vals (chartData s3) = vals (chartData s)
           \<and> map fst (userData s3) = object_keys (userData s)
           \<and> (\<forall>k d. map_of (userData s) k = Some d \<longrightarrow>
                 map_of (userData s3) k
                   = Some \<lparr>labels = labels d, vals = map json_val (vals d), entries = None\<rparr>)"
proof -
  note inv = reachable_invariant[OF r]
  define snap where "snap = \<lparr>month = currentMonth s,
       chart = \<lparr>labels = labels (chartData s), vals = vals (chartData s)\<rparr>,
       users = json_users (userData s), team = teamData s\<rparr>"
  from run_history[OF run] obtain ext where
    h: "monthlyHistory s2 = (monthlyHistory s @ [snap]) @ ext"
    by (auto simp: reset_month_history snap_def)
  have f: "find (\<lambda>h. month h = the (Some (currentMonth s))) (monthlyHistory s2) = Some snap"
    unfolding h using fresh by (intro find_first_fresh) (simp_all add: snap_def)
  have tm: "truthy (Some (currentMonth s))" using invariantD(4)[OF inv] by simp
  define s3 where "s3 = addLog clk' adminName' ''restoreMonth''
            (RestoreMonthDetails (the (Some (currentMonth s))))
            ((foldl (restore_user (users snap))
                (s2\<lparr>chartData := \<lparr>labels = labels (chart snap), vals = vals (chart snap)\<rparr>,
                   userData := []\<rparr>)
                (object_keys (users snap)))
             \<lparr>teamData := team snap, currentMonth := month snap\<rparr>)"
  have rs: "restore_month clk' adminName' (Some (currentMonth s)) s2 = (OK, s3)"
    unfolding s3_def by (rule restore_month_found[OF tm f])
  have ks: "object_keys (users snap) = object_keys (userData s)"
    by (simp add: snap_def object_keys_json_users)
  have dk: "distinct (object_keys (userData s))"
    using invariantD(2)[OF inv] by (rule distinct_object_keys)
  have np: "js ''__proto__'' \<notin> set (object_keys (userData s))"
    using invariantD(3)[OF inv] by (auto simp: set_object_keys list_all_iff user_ok_def)
  have ud: "userData s3 = map (\<lambda>k. (k, \<lparr>labels = labels (the (map_of (users snap) k)),
                                       vals = vals (the (map_of (users snap) k)),
                                       entries = None\<rparr>)) (object_keys (userData s))"
    unfolding s3_def ks using foldl_restore_userData[OF dk np, of
        "s2\<lparr>chartData := \<lparr>labels = labels (chart snap), vals = vals (chart snap)\<rparr>,
            userData := []\<rparr>" "users snap"]
    by simp
  have c3: "chartData s3 = \<lparr>labels = labels (chartData s), vals = vals (chartData s)\<rparr>"
    by (simp add: s3_def snap_def)
  have keys: "map fst (userData s3) = object_keys (userData s)"
    unfolding ud by (simp add: comp_def)
  have vals: "map_of (userData s3) k
                = Some \<lparr>labels = labels d, vals = map json_val (vals d), entries = None\<rparr>"
    if d: "map_of (userData s) k = Some d" for k d
  proof -
    from d have "k \<in> set (object_keys (userData s))"
      by (auto simp: set_object_keys dest: map_of_SomeD intro: rev_image_eqI)
    moreover have "the (map_of (users snap) k) = json_user d"
      using map_of_json_users[OF d] by (simp add: snap_def)
    ultimately show ?thesis unfolding ud
      by (simp add: map_of_map_restrict json_user_def)
  qed
  show ?thesis using rs c3 keys vals by auto
qed


lemma map_json_val_id: "list_all (\<lambda>v. json_val v = v) vs \<Longrightarrow> map json_val vs = vs"
  by (induction vs) auto


text \<open>
  C1 as stated fails. The restore rebuilds every series as \<^verbatim>\<open>{ labels, values }\<close>:
  after a deposit for \<^verbatim>\<open>Ana\<close>, a reset and the restore of that period, the values
  of \<^verbatim>\<open>Ana\<close> are back and her entries are not. And a period id is the month, which
  two resets in one month share: after a second reset with the aggregate at 7, the
  restore of that id brings back the aggregate of the first reset.
\<close>

theorem restore_month_counterexample:
  "reachable ascii two_contributors
   \<and> currentMonth two_contributors = js ''2026-01''
   \<and> user_entries Ana two_contributors
       = Some [\<lparr>e_time = js ''05/01/2026 10:00:00'', e_value = Num (Finite 50), totalIndex = 0\<rparr>]
   \<and> fst (restore_month clock2 None (Some (js ''2026-01''))
            (snd (reset_month clock2 None two_contributors))) = OK
   \<and> user_vals Ana (snd (restore_month clock2 None (Some (js ''2026-01''))
            (snd (reset_month clock2 None two_contributors)))) = Some [Num (Finite 50)]
   \<and> user_entries Ana (snd (restore_month clock2 None (Some (js ''2026-01''))
            (snd (reset_month clock2 None two_contributors)))) = None
   \<and> map_option (vals \<circ> chartData)
         (run ascii [(clock2, ResetMonth None), (clock2, Add (Finite 7) None None)]
            two_contributors) = Some [Num (Finite 7)]
   \<and> map_option currentMonth
         (run ascii [(clock2, ResetMonth None), (clock2, Add (Finite 7) None None)]
            two_contributors) = Some (js ''2026-01'')
   \<and> map_option (vals \<circ> chartData)
         (run ascii [(clock2, ResetMonth None), (clock2, Add (Finite 7) None None),
                     (clock2, ResetMonth None), (clock2, RestoreMonth None (Some (js ''2026-01'')))]
            two_contributors) = Some [Num (Finite 50), Num (Finite 30)]"
  using reachable_two_contributors
  by (simp add: two_contributors_eq reset_month_def restore_month_def restore_user_def
        finished_def json_users_def json_user_def json_entry_def users_defs route_defs
        example_defs)

text \<open>
  C1, amended. From a reachable state with no earlier snapshot under the current period
  id, a reset followed by any run of requests (deposits, edits, renames, deletes or any
  other request that does not crash) and by the restore of that period id answers 200
  and brings back the aggregate labels and values exactly, the same contributors (in
  the order of \<^verbatim>\<open>Object.keys\<close>), and for each contributor the labels exactly and the
  values as JSON keeps them: exactly when they are finite and not negative zero,
  \<^verbatim>\<open>null\<close> for an infinity.
\<close>

theorem restore_month_after_reset:
  "reachable U s \<and> (\<forall>h\<in>set (monthlyHistory s). month h \<noteq> currentMonth s)
     \<and> run U reqs (snd (reset_month clk adminName s)) = Some s2 \<longrightarrow>
     (\<exists>s3. restore_month clk' adminName' (Some (currentMonth s)) s2 = (OK, s3)
           \<and> labels (chartData s3) = labels (chartData s)
           \<and> vals (chartData s3) = vals (chartData s)
           \<and> map fst (userData s3) = object_keys (userData s)
           \<and> (\<forall>k d. map_of (userData s) k = Some d \<longrightarrow>
                 user_labels k s3 = Some (labels d)
                 \<and> user_vals k s3 = Some (map json_val (vals d))
                 \<and> (list_all (\<lambda>v. json_val v = v) (vals d) \<longrightarrow> user_vals k s3 = Some (vals d))))"
proof (intro impI, elim conjE)
  assume "reachable U s" "\<forall>h\<in>set (monthlyHistory s). month h \<noteq> currentMonth s"
    "run U reqs (snd (reset_month clk adminName s)) = Some s2"
  from restore_after_reset[OF this, of clk' adminName'] obtain s3 where
    a: "restore_month clk' adminName' (Some (currentMonth s)) s2 = (OK, s3)"
       "labels (chartData s3) = labels (chartData s)"
       "vals (chartData s3) = vals (chartData s)"
       "map fst (userData s3) = object_keys (userData s)"
    and b: "\<And>k d. map_of (userData s) k = Some d \<Longrightarrow>
                 map_of (userData s3) k
                   = Some \<lparr>labels = labels d, vals = map json_val (vals d), entries = None\<rparr>"
    by blast
  have "user_labels k s3 = Some (labels d)
                 \<and> user_vals k s3 = Some (map json_val (vals d))
                 \<and> (list_all (\<lambda>v. json_val v = v) (vals d) \<longrightarrow> user_vals k s3 = Some (vals d))"
    if "map_of (userData s) k = Some d" for k d
    using b[OF that]
    by (simp add: user_labels_def user_vals_def map_json_val_id)
  with a show "\<exists>s3. restore_month clk' adminName' (Some (currentMonth s)) s2 = (OK, s3)
           \<and> labels (chartData s3) = labels (chartData s)
           \<and> vals (chartData s3) = vals (chartData s)
           \<and> map fst (userData s3) = object_keys (userData s)
           \<and> (\<forall>k d. map_of (userData s) k = Some d \<longrightarrow>
                 user_labels k s3 = Some (labels d)
                 \<and> user_vals k s3 = Some (map json_val (vals d))
                 \<and> (list_all (\<lambda>v. json_val v = v) (vals d) \<longrightarrow> user_vals k s3 = Some (vals d)))"
    by blast
qed

theorem restore_month_after_reset_witness:
  "reachable ascii two_contributors
   \<and> monthlyHistory two_contributors = []
   \<and> run ascii [(clock2, Add (Finite 7) (Some Ana) None),
                 (clock2, PutEntry (Some Ana) (Index 0) (Some (js ''01/01/2026 00:00:00'')) None),
                 (clock2, PutUsers (js ''ana'') None (Some (js ''Zed''))),
                 (clock2, DeleteUsers (js ''zed'') None)]
        (snd (reset_month clock2 None two_contributors)) \<noteq> None
   \<and> (\<exists>s3. restore_month clock2 None (Some (currentMonth two_contributors))
              (the (run ascii [(clock2, Add (Finite 7) (Some Ana) None),
                 (clock2, PutEntry (Some Ana) (Index 0) (Some (js ''01/01/2026 00:00:00'')) None),
                 (clock2, PutUsers (js ''ana'') None (Some (js ''Zed''))),
                 (clock2, DeleteUsers (js ''zed'') None)]
                (snd (reset_month clock2 None two_contributors)))) = (OK, s3)
         \<and> labels (chartData s3) = labels (chartData two_contributors)
         \<and> vals (chartData s3) = [Num (Finite 50), Num (Finite 30)]
         \<and> map fst (userData s3) = [Ana, Bia]
         \<and> user_vals Ana s3 = Some [Num (Finite 50)]
         \<and> user_vals Bia s3 = Some [Num (Finite 30)])"
proof -
  have h2: "\<forall>h\<in>set (monthlyHistory two_contributors). month h \<noteq> currentMonth two_contributors"
    by (simp add: two_contributors_eq)
  obtain s2 where h3: "run ascii [(clock2, Add (Finite 7) (Some Ana) None),
                 (clock2, PutEntry (Some Ana) (Index 0) (Some (js ''01/01/2026 00:00:00'')) None),
                 (clock2, PutUsers (js ''ana'') None (Some (js ''Zed''))),
                 (clock2, DeleteUsers (js ''zed'') None)]
        (snd (reset_month clock2 None two_contributors)) = Some s2"
    by (simp add: two_contributors_eq reset_month_def put_entry_def put_users_def delete_users_def
          finished_def json_users_def json_user_def json_entry_def users_defs string_defs
          route_defs example_defs)
  have h4: "object_keys (userData two_contributors) = [Ana, Bia]"
    by (simp add: two_contributors_eq users_defs example_defs)
  have h5: "map_of (userData two_contributors) Ana
              = Some \<lparr>labels = [js ''05/01/2026 10:00:00''], vals = [Num (Finite 50)],
                entries = Some [\<lparr>e_time = js ''05/01/2026 10:00:00'',
                                 e_value = Num (Finite 50), totalIndex = 0\<rparr>]\<rparr>"
    "map_of (userData two_contributors) Bia
       = Some \<lparr>labels = [js ''06/01/2026 11:30:00''], vals = [Num (Finite 30)],
               entries = Some [\<lparr>e_time = js ''06/01/2026 11:30:00'',
                                e_value = Num (Finite 30), totalIndex = 1\<rparr>]\<rparr>"
    by (simp_all add: two_contributors_eq example_defs)
  have h6: "vals (chartData two_contributors) = [Num (Finite 50), Num (Finite 30)]"
    by (simp add: two_contributors_eq)
  from restore_month_after_reset [of ascii two_contributors _ clock2 None s2 clock2 None]
    reachable_two_contributors h2 h3
  obtain s3 where
    a: "restore_month clock2 None (Some (currentMonth two_contributors)) s2 = (OK, s3)"
       "labels (chartData s3) = labels (chartData two_contributors)"
       "vals (chartData s3) = vals (chartData two_contributors)"
       "map fst (userData s3) = object_keys (userData two_contributors)"
    and b: "\<And>k d. map_of (userData two_contributors) k = Some d \<Longrightarrow>
                 user_vals k s3 = Some (map json_val (vals d))"
    by blast
  have h7: "monthlyHistory two_contributors = []"
    by (simp add: two_contributors_eq)
  from b[OF h5(1)] b[OF h5(2)] a h3 h4 h6 reachable_two_contributors h7
  show ?thesis by simp
qed


subsection \<open>Entries after a restore\<close>

lemma no_entries_user_entries: "no_entries (userData s) \<Longrightarrow> user_entries c s = None"
  by (auto simp: no_entries_def user_entries_map_of list_all_iff split: option.splits
           dest!: map_of_SomeD)

lemma no_entries_restore_user:
  "no_entries (userData s) \<Longrightarrow> no_entries (userData (restore_user us s k))"
  by (auto simp: no_entries_def restore_user_def setProp_def Let_def intro: list_all_upsert)

lemma no_entries_foldl_restore_user:
  "no_entries (userData s) \<Longrightarrow> no_entries (userData (foldl (restore_user us) s ks))"
  by (induction ks arbitrary: s) (simp_all add: no_entries_restore_user)

lemma restore_month_no_entries:
  assumes "restore_month clk adminName mon s = (OK, s')"
  shows "user_entries c s' = None"
  using restore_month_cases[OF assms]
proof (elim disjE exE conjE)
  assume "OK \<noteq> OK"
  then show ?thesis by simp
next
  fix snap
  assume tm: "truthy mon" and f: "find (\<lambda>h. month h = the mon) (monthlyHistory s) = Some snap"
  have "no_entries (userData (foldl (restore_user (users snap))
                (s\<lparr>chartData := \<lparr>labels = labels (chart snap), vals = vals (chart snap)\<rparr>,
                   userData := []\<rparr>)
                (object_keys (users snap))))"
    by (rule no_entries_foldl_restore_user) (simp add: no_entries_def)
  then have "no_entries (userData s')"
    using assms unfolding restore_month_found[OF tm f] by auto
  then show ?thesis by (rule no_entries_user_entries)
qed

lemma user_entries_getProp:
  "user_entries c s = None \<Longrightarrow> getProp s c = Own d \<Longrightarrow> entries d = None"
  by (simp add: user_entries_def)

lemma put_entry_no_entries:
  assumes "user_entries c s = None" "c \<noteq> []" "truthy newTime"
  shows "put_entry clk (Some c) (Index idx) newTime adminName s = (NotFound, s)"
proof (cases "getProp s c")
  case (Own d)
  with user_entries_getProp[OF assms(1) Own] assms(2,3) show ?thesis
    by (simp add: put_entry_def)
qed (use assms(2,3) in \<open>simp_all add: put_entry_def\<close>)

lemma get_entries_no_entries:
  assumes "user_entries c s = None" "c \<noteq> []"
  shows "get_entries (Some c) s = Inl NotFound"
proof (cases "getProp s c")
  case (Own d)
  with user_entries_getProp[OF assms(1) Own] assms(2) show ?thesis
    by (simp add: get_entries_def)
qed (use assms(2) in \<open>simp_all add: get_entries_def\<close>)

lemma add_value_no_entries_crash:
  assumes "map_of (userData s) c = Some d" "entries d = None" "c \<noteq> []" "amount \<noteq> NaN"
  shows "add_value clk amount (Some c) adminName s = Crash"
proof -
  have n: "\<not> isNaN amount" using assms(4) by (cases amount) auto
  have g: "getProp s c = Own d" using assms(1) by (rule getProp_map_of)
  show ?thesis using n g assms(2,3) by (simp add: add_value_def Let_def)
qed


lemma user_entries_cong:
  "map_of (userData s') c = map_of (userData s) c \<Longrightarrow> user_entries c s' = user_entries c s"
  by (simp add: user_entries_map_of)

lemma user_entries_addLog [simp]:
  "user_entries c (addLog clk a act det s) = user_entries c s"
  by (simp add: user_entries_map_of)

lemma user_entries_userData:
  "userData s' = userData s \<Longrightarrow> user_entries c s' = user_entries c s"
  by (simp add: user_entries_map_of)

lemma setProp_map_of_other:
  "k \<noteq> c \<Longrightarrow> map_of (userData (setProp k v s)) c = map_of (userData s) c"
  by (simp add: setProp_def map_of_upsert)

lemma add_value_entries:
  assumes e: "user_entries c s = None"
    and st: "add_value clk amount userName adminName s = Done r s'"
  shows "user_entries c s' = None \<or> (userName = Some c \<and> getProp s c = Absent)"
proof (cases "isNaN amount")
  case True
  with st e show ?thesis by (simp add: add_value_def)
next
  case n: False
  define s1 where "s1 = s\<lparr>chartData := \<lparr>labels = labels (chartData s) @ [label_now clk],
                    vals = vals (chartData s) @ [Num amount]\<rparr>\<rparr>"
  have u1: "userData s1 = userData s" by (simp add: s1_def)
  have g1: "getProp s1 k = getProp s k" for k by (simp add: s1_def)
  show ?thesis
  proof (cases "truthy userName")
    case False
    with st n have "s' = addLog clk adminName ''deposit''
        (DepositDetails (js ''total'') amount (label_now clk)) s1"
      by (simp add: add_value_def Let_def s1_def)
    then have "userData s' = userData s" by (simp add: u1)
    with e user_entries_userData[of s' s c] show ?thesis by simp
  next
    case True
    define u where "u = the userName"
    define s2 where "s2 = (if getProp s1 u = Absent
               then setProp u \<lparr>labels = [], vals = [], entries = Some []\<rparr> s1 else s1)"
    from True have un: "userName = Some u" by (cases userName) (auto simp: u_def)
    from st n True obtain d es where
      g: "getProp s2 u = Own d" and en: "entries d = Some es"
      and s': "s' = addLog clk adminName ''deposit'' (DepositDetails u amount (label_now clk))
                 (s2\<lparr>userData := upsert u
                 \<lparr>labels = labels d @ [label_now clk], vals = vals d @ [Num amount],
                  entries = Some (es @ [\<lparr>e_time = label_now clk, e_value = Num amount,
                     totalIndex = length (vals (chartData s1)) - 1\<rparr>])\<rparr> (userData s2)\<rparr>)"
      unfolding add_value_def Let_def s1_def[symmetric] u_def[symmetric] s2_def[symmetric]
      by (auto split: property.splits option.splits)
    show ?thesis
    proof (cases "u = c")
      case False
      have "map_of (userData s2) c = map_of (userData s) c"
        using False by (simp add: s2_def setProp_map_of_other u1)
      then have "map_of (userData s') c = map_of (userData s) c"
        unfolding s' using False by (simp add: map_of_upsert)
      with e user_entries_cong[of s' c s] show ?thesis by simp
    next
      case uc: True
      show ?thesis
      proof (cases "getProp s c = Absent")
        case True
        with un uc show ?thesis by simp
      next
        case False
        then have "s2 = s1" by (simp add: s2_def g1 uc)
        with g have "getProp s c = Own d" by (simp add: g1 uc)
        from user_entries_getProp[OF e this] en show ?thesis by simp
      qed
    qed
  qed
qed

lemma team_userData:
  "userData (snd (post_team U clk nm descr adminName s)) = userData s"
  "userData (snd (put_team clk i nm descr adminName s)) = userData s"
  "userData (snd (delete_team clk i adminName s)) = userData s"
  by (auto simp: post_team_def put_team_def delete_team_def Let_def split: option.splits)

lemma accounts_userData:
  "userData (snd (handleRegister U clk nm pw s)) = userData s"
  "userData (snd (handleLogin U clk nm pw s)) = userData s"
  "userData (snd (change_password U clk adminName newPassword s)) = userData s"
  "userData (snd (delete_logs U clk adminName s)) = userData s"
  "userData (snd (upload_hero clk adminName up s)) = userData s"
  by (auto simp: handleRegister_def handleLogin_def change_password_def delete_logs_def
        upload_hero_def Let_def split: option.splits upload.splits)

lemma put_entry_entries:
  assumes e: "user_entries c s = None"
  shows "user_entries c (snd (put_entry clk userName index newTime adminName s)) = None"
proof -
  obtain r s' where st: "put_entry clk userName index newTime adminName s = (r, s')"
    by (cases "put_entry clk userName index newTime adminName s")
  from put_entry_cases[OF st] show ?thesis
  proof (elim disjE exE conjE)
    assume "s' = s"
    with st e show ?thesis by simp
  next
    fix idx d es
    assume a: "index = Index idx" "truthy userName" "truthy newTime"
      "getProp s (the userName) = Own d" "entries d = Some es" "0 \<le> idx" "idx < int (length es)"
    from user_entries_getProp[OF e, of d] a(4,5) have "the userName \<noteq> c" by auto
    then have "map_of (userData (snd (put_entry clk userName index newTime adminName s))) c
               = map_of (userData s) c"
      unfolding a(1) put_entry_found[OF a(2-7)] by (simp add: map_of_upsert)
    with e user_entries_cong[of "snd (put_entry clk userName index newTime adminName s)" c s]
    show ?thesis by simp
  qed
qed

lemma map_of_filter_key:
  "map_of (filter (\<lambda>kv. fst kv \<noteq> x) kvs) y = (if y = x then None else map_of kvs y)"
  by (induction kvs) auto

lemma deleteProp_entries:
  "user_entries c s = None \<Longrightarrow> user_entries c (deleteProp k s) = None"
  by (simp add: user_entries_map_of deleteProp_def map_of_filter_key)

lemma delete_users_entries:
  "user_entries c s = None \<Longrightarrow>
     user_entries c (snd (delete_users U clk i adminName s)) = None"
  by (auto simp: delete_users_def deleteProp_entries split: option.splits)

lemma setProp_entries:
  "user_entries c s = None \<Longrightarrow> entries v = None \<Longrightarrow> user_entries c (setProp k v s) = None"
  by (auto simp: user_entries_map_of setProp_def map_of_upsert split: option.splits)

lemma put_users_entries:
  "user_entries c s = None \<Longrightarrow>
     user_entries c (snd (put_users U clk i adminName newName s)) = None"
  by (auto simp: put_users_def Let_def deleteProp_entries setProp_entries
           split: option.splits)

lemma reset_month_entries:
  "user_entries c (snd (reset_month clk adminName s)) = None"
  by (simp add: reset_month_def Let_def user_entries_map_of)

lemma restore_month_entries:
  "user_entries c s = None \<Longrightarrow>
     user_entries c (snd (restore_month clk adminName mon s)) = None"
proof -
  assume e: "user_entries c s = None"
  obtain r s' where st: "restore_month clk adminName mon s = (r, s')"
    by (cases "restore_month clk adminName mon s")
  show ?thesis
  proof (cases "r = OK")
    case True
    with st restore_month_no_entries[of clk adminName mon s s' c] show ?thesis by simp
  next
    case False
    with restore_month_cases[OF st] restore_month_found[of mon s _ clk adminName] st
    have "s' = s" by auto
    with st e show ?thesis by simp
  qed
qed

text \<open>
  Entries come into existence only with a series: a contributor without entries has
  entries after a request only if the request is a deposit naming it and no property of
  that name was found before the request.
\<close>

lemma step_entries:
  assumes e: "user_entries c s = None" and st: "step U clk req s = Done r s'"
    and ne: "user_entries c s' \<noteq> None"
  shows "\<exists>amount adminName. req = Add amount (Some c) adminName \<and> getProp s c = Absent"
proof (cases req)
  case (Add amount userName adminName)
  with st add_value_entries[OF e, of clk amount userName adminName r s'] ne show ?thesis by auto
next
  case (PostTeam nm descr adminName)
  with st e ne team_userData(1)[of U clk nm descr adminName s] show ?thesis
    by (auto simp: finished_def dest: user_entries_userData[of _ s c])
next
  case (PutTeam i nm descr adminName)
  with st e ne team_userData(2)[of clk i nm descr adminName s] show ?thesis
    by (auto simp: finished_def dest: user_entries_userData[of _ s c])
next
  case (DeleteTeam i adminName)
  with st e ne team_userData(3)[of clk i adminName s] show ?thesis
    by (auto simp: finished_def dest: user_entries_userData[of _ s c])
next
  case (PutEntry userName index newTime adminName)
  with st ne put_entry_entries[OF e, of clk userName index newTime adminName] show ?thesis
    by (auto simp: finished_def)
next
  case (DeleteUsers i adminName)
  with st ne delete_users_entries[OF e, of U clk i adminName] show ?thesis
    by (auto simp: finished_def)
next
  case (PutUsers i adminName newName)
  with st ne put_users_entries[OF e, of U clk i adminName newName] show ?thesis
    by (auto simp: finished_def)
next
  case (ResetMonth adminName)
  with st ne reset_month_entries[of c clk adminName s] show ?thesis
    by (auto simp: finished_def)
next
  case (RestoreMonth adminName mon)
  with st ne restore_month_entries[OF e, of clk adminName mon] show ?thesis
    by (auto simp: finished_def)
next
  case (Register nm pw)
  with st e ne accounts_userData(1)[of U clk nm pw s] show ?thesis
    by (auto simp: finished_def dest: user_entries_userData[of _ s c])
next
  case (Login nm pw)
  with st e ne accounts_userData(2)[of U clk nm pw s] show ?thesis
    by (auto simp: finished_def dest: user_entries_userData[of _ s c])
next
  case (ChangePassword adminName newPassword)
  with st e ne accounts_userData(3)[of U clk adminName newPassword s] show ?thesis
    by (auto simp: finished_def dest: user_entries_userData[of _ s c])
next
  case (DeleteLogs adminName)
  with st e ne accounts_userData(4)[of U clk adminName s] show ?thesis
    by (auto simp: finished_def dest: user_entries_userData[of _ s c])
next
  case (UploadHero adminName up)
  with st e ne accounts_userData(5)[of clk adminName up s] show ?thesis
    by (auto simp: finished_def dest: user_entries_userData[of _ s c])
qed



text \<open>
  Along a sequence of completed requests, a contributor without entries stays without
  entries as long as no deposit with an amount other than NaN names it.
\<close>

lemma run_entries:
  assumes "user_entries c s = None" and "run U reqs s = Some s'"
    and "list_all (\<lambda>cr. \<not> deposit_for c (snd cr)) reqs"
  shows "user_entries c s' = None"
  using assms
proof (induction reqs arbitrary: s)
  case Nil
  then show ?case by simp
next
  case (Cons cr reqs)
  obtain clk req where cr: "cr = (clk, req)" by (cases cr)
  from Cons.prems(2) cr obtain r s1 where st: "step U clk req s = Done r s1"
    and rest: "run U reqs s1 = Some s'"
    by (auto split: outcome.splits)
  have "user_entries c s1 = None"
  proof (rule ccontr)
    assume ne: "user_entries c s1 \<noteq> None"
    from step_entries[OF Cons.prems(1) st ne] obtain amount adminName where
      req: "req = Add amount (Some c) adminName" by blast
    with Cons.prems(3) cr have "amount = NaN" by (cases amount) auto
    with st req have "s1 = s" by (simp add: add_value_NaN)
    with ne Cons.prems(1) show False by simp
  qed
  moreover from Cons.prems(3) have "list_all (\<lambda>cr. \<not> deposit_for c (snd cr)) reqs" by simp
  ultimately show ?case using Cons.IH rest by blast
qed

text \<open>
  C10 as stated fails at its last clause: a new deposit does not recreate the entries of
  a restored contributor. The route finds the series, skips its creation, and throws on
  \<^verbatim>\<open>userData[userName].entries.push\<close>. And an edit with an empty time is answered
  400, not 404: the guard \<^verbatim>\<open>!newTime\<close> comes before the lookup of the contributor.
\<close>

theorem restore_then_deposit_counterexample:
  "reachable ascii two_contributors
   \<and> user_vals Ana two_contributors = Some [Num (Finite 50)]
   \<and> fst (restore_month clock2 None (Some (js ''2026-01''))
            (snd (reset_month clock2 None two_contributors))) = OK
   \<and> user_vals Ana (snd (restore_month clock2 None (Some (js ''2026-01''))
            (snd (reset_month clock2 None two_contributors)))) = Some [Num (Finite 50)]
   \<and> add_value clock2 (Finite 10) (Some Ana) None
         (snd (restore_month clock2 None (Some (js ''2026-01''))
            (snd (reset_month clock2 None two_contributors)))) = Crash
   \<and> fst (put_entry clock2 (Some Ana) (Index 0) (Some []) None
         (snd (restore_month clock2 None (Some (js ''2026-01''))
            (snd (reset_month clock2 None two_contributors))))) = BadRequest"
  using reachable_two_contributors
  by (simp add: two_contributors_eq reset_month_def restore_month_def restore_user_def
        json_users_def json_user_def json_entry_def users_defs route_defs example_defs
        put_entry_def)

text \<open>
  C10, amended. After a successful restore no contributor has entries. For a contributor
  without entries (named by a non-empty name) every edit with an index and a non-empty
  time, and every listing of its entries, is answered 404 and changes nothing. This
  lasts: after a successful restore and any sequence of completed requests in which no
  deposit with an amount other than NaN names the contributor, the contributor still has
  no entries, and every such edit and listing is still answered 404.
\<close>

theorem restored_series_have_no_entries:
  "(restore_month clk adminName mon s = (OK, s') \<longrightarrow> user_entries c s' = None)
   \<and> (user_entries c s = None \<and> c \<noteq> [] \<and> truthy newTime \<longrightarrow>
        put_entry clk (Some c) (Index idx) newTime adminName s = (NotFound, s)
        \<and> get_entries (Some c) s = Inl NotFound)
   \<and> (restore_month clk adminName mon s = (OK, s') \<and> run U reqs s' = Some s''
        \<and> list_all (\<lambda>cr. \<not> deposit_for c (snd cr)) reqs \<and> c \<noteq> [] \<and> truthy newTime \<longrightarrow>
        user_entries c s'' = None
        \<and> put_entry clk' (Some c) (Index idx) newTime adminName' s'' = (NotFound, s'')
        \<and> get_entries (Some c) s'' = Inl NotFound)"
proof (intro conjI impI)
  assume "restore_month clk adminName mon s = (OK, s')"
  then show "user_entries c s' = None" by (rule restore_month_no_entries)
next
  assume a: "user_entries c s = None \<and> c \<noteq> [] \<and> truthy newTime"
  then show "put_entry clk (Some c) (Index idx) newTime adminName s = (NotFound, s)"
    using put_entry_no_entries[of c s newTime clk idx adminName] by blast
  from a show "get_entries (Some c) s = Inl NotFound"
    using get_entries_no_entries[of c s] by blast
next
  assume a: "restore_month clk adminName mon s = (OK, s') \<and> run U reqs s' = Some s''
        \<and> list_all (\<lambda>cr. \<not> deposit_for c (snd cr)) reqs \<and> c \<noteq> [] \<and> truthy newTime"
  then have "user_entries c s' = None" using restore_month_no_entries by blast
  with a show e: "user_entries c s'' = None" using run_entries[of c s' U reqs s''] by blast
  from e a show "put_entry clk' (Some c) (Index idx) newTime adminName' s'' = (NotFound, s'')"
    using put_entry_no_entries[of c s'' newTime clk' idx adminName'] by blast
  from e a show "get_entries (Some c) s'' = Inl NotFound"
    using get_entries_no_entries[of c s''] by blast
qed

theorem restored_series_have_no_entries_witness:
  "restore_month clock2 None (Some (js ''2026-01'')) (snd (reset_month clock2 None two_contributors))
     = (OK, snd (restore_month clock2 None (Some (js ''2026-01''))
                   (snd (reset_month clock2 None two_contributors))))
   \<and> user_entries Ana two_contributors \<noteq> None
   \<and> user_entries Ana (snd (restore_month clock2 None (Some (js ''2026-01''))
                   (snd (reset_month clock2 None two_contributors)))) = None
   \<and> Ana \<noteq> [] \<and> truthy (Some (js ''07/01/2026 09:00:00''))
   \<and> put_entry clock2 (Some Ana) (Index 0) (Some (js ''07/01/2026 09:00:00'')) None
         (snd (restore_month clock2 None (Some (js ''2026-01''))
                   (snd (reset_month clock2 None two_contributors))))
       = (NotFound, snd (restore_month clock2 None (Some (js ''2026-01''))
                   (snd (reset_month clock2 None two_contributors))))
   \<and> get_entries (Some Ana) (snd (restore_month clock2 None (Some (js ''2026-01''))
                   (snd (reset_month clock2 None two_contributors)))) = Inl NotFound
   \<and> list_all (\<lambda>cr. \<not> deposit_for Ana (snd cr))
        [(clock2, Add (Finite 10) None None), (clock2, Add NaN (Some Ana) None)]
   \<and> (\<exists>sf. run ascii [(clock2, Add (Finite 10) None None), (clock2, Add NaN (Some Ana) None)]
              (snd (restore_month clock2 None (Some (js ''2026-01''))
                   (snd (reset_month clock2 None two_contributors)))) = Some sf
          \<and> user_entries Ana sf = None
          \<and> put_entry clock2 (Some Ana) (Index 0) (Some (js ''07/01/2026 09:00:00'')) None sf
              = (NotFound, sf)
          \<and> get_entries (Some Ana) sf = Inl NotFound)"
proof -
  define R where "R = snd (restore_month clock2 None (Some (js ''2026-01''))
                   (snd (reset_month clock2 None two_contributors)))"
  define F where "F = addLog clock2 None ''deposit''
      (DepositDetails (js ''total'') (Finite 10) (label_now clock2))
      (R\<lparr>chartData := \<lparr>labels = labels (chartData R) @ [label_now clock2],
                        vals = vals (chartData R) @ [Num (Finite 10)]\<rparr>\<rparr>)"
  have h1: "restore_month clock2 None (Some (js ''2026-01''))
              (snd (reset_month clock2 None two_contributors)) = (OK, R)"
    unfolding R_def prod_eq_iff
    by (simp add: two_contributors_eq reset_month_def restore_month_def Let_def
          addLog_def example_defs)
  have h2: "Ana \<noteq> [] \<and> truthy (Some (js ''07/01/2026 09:00:00''))"
    by (simp add: example_defs)
  have h3: "list_all (\<lambda>cr. \<not> deposit_for Ana (snd cr))
        [(clock2, Add (Finite 10) None None), (clock2, Add NaN (Some Ana) None)]"
    by simp
  have h4: "run ascii [(clock2, Add (Finite 10) None None), (clock2, Add NaN (Some Ana) None)] R
            = Some F"
    by (simp add: add_value_def Let_def F_def)
  have h6: "user_entries Ana two_contributors \<noteq> None"
    by (simp add: two_contributors_eq users_defs route_defs example_defs)
  note a = restored_series_have_no_entries
      [where clk = clock2 and adminName = None and mon = "Some (js ''2026-01'')"
         and s = "snd (reset_month clock2 None two_contributors)" and s' = R and c = Ana
         and U = ascii and s'' = F and clk' = clock2 and adminName' = None and idx = 0
         and reqs = "[(clock2, Add (Finite 10) None None), (clock2, Add NaN (Some Ana) None)]"
         and newTime = "Some (js ''07/01/2026 09:00:00'')"]
  note b = restored_series_have_no_entries
      [where clk = clock2 and adminName = None and s = R and c = Ana and idx = 0
         and newTime = "Some (js ''07/01/2026 09:00:00'')"]
  from a h1 have e: "user_entries Ana R = None" by blast
  from b e h2 have p: "put_entry clock2 (Some Ana) (Index 0) (Some (js ''07/01/2026 09:00:00'')) None R
       = (NotFound, R)" "get_entries (Some Ana) R = Inl NotFound" by blast+
  from a h1 h2 h3 h4 have q: "user_entries Ana F = None"
    "put_entry clock2 (Some Ana) (Index 0) (Some (js ''07/01/2026 09:00:00'')) None F
       = (NotFound, F)" "get_entries (Some Ana) F = Inl NotFound" by blast+
  from h4 q have r: "\<exists>sf. run ascii [(clock2, Add (Finite 10) None None), (clock2, Add NaN (Some Ana) None)] R = Some sf
          \<and> user_entries Ana sf = None
          \<and> put_entry clock2 (Some Ana) (Index 0) (Some (js ''07/01/2026 09:00:00'')) None sf
              = (NotFound, sf)
          \<and> get_entries (Some Ana) sf = Inl NotFound" by blast
  show ?thesis
    using h1 e h2 p h3 h6 r unfolding R_def by simp
qed

end
